(* ===== verification/Infed_Prelude.thy ===== *)
theory Infed_Prelude
  imports Main
begin

section \<open>Prelude: results, errors and shared list facts\<close>

text \<open>
  What every component of the development shares: the ways a C function of the plug-in can
  fail, the result type, its sequencing operator with the congruence rule that lets the
  function package see through it, and generic facts about lists. The development's fact
  collections are declared here:
  \<^item> \<open>res_simps\<close>: rewriting of sequenced results,
  \<^item> \<open>mem_simps\<close>: reading a memory after an allocation or a store,
  \<^item> \<open>rep_intros\<close>: introduction rules for list representations.
\<close>

named_theorems res_simps
named_theorems mem_simps
named_theorems rep_intros

subsection \<open>Failures of C code\<close>

text \<open>
  \<open>Elog msg\<close> is an error raised with \<open>elog(ERROR, msg)\<close>; \<open>Segv\<close> is the dereference of a
  null pointer; \<open>BadAccess\<close> is the use of freed memory, of a member of a union that was not
  written, or of a chunk of another type; \<open>Loop\<close> is a loop that does not end. \<open>Shared\<close> is not
  a failure of the code: the model stops with it where the code goes on to visit again a sub-query
  that it has already updated in place, an effect that trees as values do not express.
\<close>

datatype cerr = Elog string | Segv | BadAccess | Loop | Shared

type_synonym 'a res = "cerr + 'a"

definition bnd :: "'a res \<Rightarrow> ('a \<Rightarrow> 'b res) \<Rightarrow> 'b res" where
  "bnd r f = (case r of Inl e \<Rightarrow> Inl e | Inr x \<Rightarrow> f x)"

lemma bnd_Inr [simp, res_simps]: "bnd (Inr x) f = f x"
  by (simp add: bnd_def)

lemma bnd_Inl [simp, res_simps]: "bnd (Inl e) f = Inl e"
  by (simp add: bnd_def)

lemma bnd_Inr_right [simp, res_simps]: "bnd r Inr = r" "bnd r (\<lambda>x. Inr x) = r"
  by (cases r; simp)+

lemma bnd_assoc: "bnd (bnd r f) g = bnd r (\<lambda>x. bnd (f x) g)"
  by (cases r) simp_all

lemma bnd_cong [fundef_cong]:
  assumes "r = r'" and "\<And>x. r' = Inr x \<Longrightarrow> f x = g x"
  shows "bnd r f = bnd r' g"
  using assms by (cases r') simp_all

lemma bnd_eq_Inr_iff: "bnd r f = Inr y \<longleftrightarrow> (\<exists>x. r = Inr x \<and> f x = Inr y)"
  by (cases r) simp_all

lemma bnd_eq_InrE [elim]:
  assumes "bnd r f = Inr y"
  obtains x where "r = Inr x" and "f x = Inr y"
  using assms by (auto simp: bnd_eq_Inr_iff)

lemma bnd_split: "P (bnd r f) \<longleftrightarrow> (\<forall>e. r = Inl e \<longrightarrow> P (Inl e)) \<and> (\<forall>x. r = Inr x \<longrightarrow> P (f x))"
  by (cases r) simp_all

text \<open>The result \<open>Inr\<close> is a value; \<open>ok r\<close> says that the call returned one.\<close>

definition ok :: "'a res \<Rightarrow> bool" where
  "ok r \<longleftrightarrow> (\<exists>x. r = Inr x)"

lemma ok_simps [simp]: "ok (Inr x)" "\<not> ok (Inl e)"
  by (simp_all add: ok_def)

lemma ok_bnd: "ok (bnd r f) \<longleftrightarrow> (\<exists>x. r = Inr x \<and> ok (f x))"
  by (cases r) simp_all

subsection \<open>Lists\<close>

lemma distinct_bounded_length:
  assumes "distinct xs" and "set xs \<subseteq> {0..<n}"
  shows "length xs \<le> n"
proof -
  have "length xs = card (set xs)"
    using assms(1) by (simp add: distinct_card)
  also have "\<dots> \<le> card {0..<n}"
    using assms(2) by (intro card_mono) simp_all
  finally show ?thesis by simp
qed

text \<open>Keeping the elements not yet kept: what an append-if-absent loop computes.\<close>

fun add_new :: "('a \<Rightarrow> 'a \<Rightarrow> bool) \<Rightarrow> 'a list \<Rightarrow> 'a list \<Rightarrow> 'a list" where
  "add_new eq acc [] = acc"
| "add_new eq acc (x # xs) =
     (if \<exists>y \<in> set acc. eq y x then add_new eq acc xs else add_new eq (acc @ [x]) xs)"

lemma set_add_new_eq: "set (add_new (=) acc xs) = set acc \<union> set xs"
  by (induction xs arbitrary: acc) auto

lemma distinct_add_new_eq: "distinct acc \<Longrightarrow> distinct (add_new (=) acc xs)"
  by (induction xs arbitrary: acc) auto

lemma list_all2_imp:
  assumes "list_all2 (\<lambda>x y. Q y \<longrightarrow> R x) xs ys"
  shows "\<forall>y \<in> set ys. Q y \<Longrightarrow> \<forall>x \<in> set xs. R x" and "\<exists>y \<in> set ys. Q y \<Longrightarrow> \<exists>x \<in> set xs. R x"
  using assms by (induction rule: list_all2_induct) auto

lemma list_all2_imp':
  assumes "list_all2 (\<lambda>x y. R x \<longrightarrow> Q y) xs ys"
  shows "\<forall>x \<in> set xs. R x \<Longrightarrow> \<forall>y \<in> set ys. Q y" and "\<exists>x \<in> set xs. R x \<Longrightarrow> \<exists>y \<in> set ys. Q y"
  using assms by (induction rule: list_all2_induct) auto

end
