(* ===== verification/Pg_Memory.thy ===== *)
theory Pg_Memory
  imports Infed_Prelude
begin

section \<open>Memory: allocated chunks, list headers and list cells\<close>

text \<open>
  The memory the plug-in works on: a map from addresses to allocated chunks. Address 0 is the
  null pointer. A chunk is a \<open>List\<close> header, a \<open>ListCell\<close> (\<open>pg_list.h\<close>) or another
  allocated object, whose type is a parameter of the memory. \<open>brk\<close> is the next address
  \<open>palloc\<close> returns; addresses are never reused, so a stale pointer stays recognisable. The
  fields of a chunk are read and written through \<open>load_list\<close>, \<open>load_cell\<close> and their
  stores, which fail as the C does: null pointers are \<open>Segv\<close>, freed chunks and chunks of the
  wrong type are \<open>BadAccess\<close>. A cell's data is the union of \<open>pg_list.h\<close>; \<open>Undef\<close> is the
  content of a cell nobody has filled in.
\<close>

datatype list_tag = T_List | T_IntList | T_OidList

datatype lval = Ptr nat | IntV int | OidV nat | Undef

record list_hdr =
  ltype :: list_tag
  llength :: int
  lhead :: nat
  ltail :: nat

record list_cell =
  cdata :: lval
  cnext :: nat

datatype 'o chunk = ListHdr list_hdr | ListCell list_cell | Obj 'o

record 'o mem =
  heap :: "nat \<Rightarrow> 'o chunk option"
  brk :: nat

definition empty_mem :: "'o mem" where
  "empty_mem = \<lparr>heap = (\<lambda>_. None), brk = 1\<rparr>"

text \<open>Well-formed memories: nothing lives at the null address or beyond the break.\<close>

definition mem_ok :: "'o mem \<Rightarrow> bool" where
  "mem_ok m \<longleftrightarrow> heap m 0 = None \<and> 0 < brk m \<and> (\<forall>a. brk m \<le> a \<longrightarrow> heap m a = None)"

definition palloc :: "'o mem \<Rightarrow> 'o chunk \<Rightarrow> nat \<times> 'o mem" where
  "palloc m c = (brk m, m\<lparr>heap := (heap m)(brk m \<mapsto> c), brk := Suc (brk m)\<rparr>)"

definition pfree :: "'o mem \<Rightarrow> nat \<Rightarrow> 'o mem res" where
  "pfree m p =
     (if p = 0 then Inl Segv
      else case heap m p of
        None \<Rightarrow> Inl BadAccess
      | Some _ \<Rightarrow> Inr (m\<lparr>heap := (heap m)(p := None)\<rparr>))"

definition load_list :: "'o mem \<Rightarrow> nat \<Rightarrow> list_hdr res" where
  "load_list m p =
     (if p = 0 then Inl Segv
      else case heap m p of Some (ListHdr h) \<Rightarrow> Inr h | _ \<Rightarrow> Inl BadAccess)"

definition load_cell :: "'o mem \<Rightarrow> nat \<Rightarrow> list_cell res" where
  "load_cell m p =
     (if p = 0 then Inl Segv
      else case heap m p of Some (ListCell c) \<Rightarrow> Inr c | _ \<Rightarrow> Inl BadAccess)"

definition load_obj :: "'o mem \<Rightarrow> nat \<Rightarrow> 'o res" where
  "load_obj m p =
     (if p = 0 then Inl Segv
      else case heap m p of Some (Obj x) \<Rightarrow> Inr x | _ \<Rightarrow> Inl BadAccess)"

definition store_list :: "'o mem \<Rightarrow> nat \<Rightarrow> list_hdr \<Rightarrow> 'o mem" where
  "store_list m p h = m\<lparr>heap := (heap m)(p \<mapsto> ListHdr h)\<rparr>"

definition store_cell :: "'o mem \<Rightarrow> nat \<Rightarrow> list_cell \<Rightarrow> 'o mem" where
  "store_cell m p c = m\<lparr>heap := (heap m)(p \<mapsto> ListCell c)\<rparr>"

text \<open>Assignment to one field of a cell reached through a pointer.\<close>

definition set_data :: "'o mem \<Rightarrow> nat \<Rightarrow> lval \<Rightarrow> 'o mem res" where
  "set_data m p d = bnd (load_cell m p) (\<lambda>c. Inr (store_cell m p (c\<lparr>cdata := d\<rparr>)))"

definition set_next :: "'o mem \<Rightarrow> nat \<Rightarrow> nat \<Rightarrow> 'o mem res" where
  "set_next m p n = bnd (load_cell m p) (\<lambda>c. Inr (store_cell m p (c\<lparr>cnext := n\<rparr>)))"

text \<open>The members of the union, \<open>lfirst\<close>, \<open>lfirst_int\<close> and \<open>lfirst_oid\<close>.\<close>

fun as_ptr :: "lval \<Rightarrow> nat res" where
  "as_ptr (Ptr p) = Inr p"
| "as_ptr _ = Inl BadAccess"

fun as_int :: "lval \<Rightarrow> int res" where
  "as_int (IntV i) = Inr i"
| "as_int _ = Inl BadAccess"

fun as_oid :: "lval \<Rightarrow> nat res" where
  "as_oid (OidV i) = Inr i"
| "as_oid _ = Inl BadAccess"

definition lfirst :: "'o mem \<Rightarrow> nat \<Rightarrow> nat res" where
  "lfirst m c = bnd (load_cell m c) (\<lambda>cl. as_ptr (cdata cl))"

definition lfirst_int :: "'o mem \<Rightarrow> nat \<Rightarrow> int res" where
  "lfirst_int m c = bnd (load_cell m c) (\<lambda>cl. as_int (cdata cl))"

definition lfirst_oid :: "'o mem \<Rightarrow> nat \<Rightarrow> nat res" where
  "lfirst_oid m c = bnd (load_cell m c) (\<lambda>cl. as_oid (cdata cl))"

text \<open>
  A loop over a chain of cells visits each allocated cell at most once, and no loop of
  \<open>list.c\<close> allocates more than one cell per visited cell; a loop that takes more steps than
  this bound follows a cyclic chain and does not end.
\<close>

definition loop_fuel :: "'o mem \<Rightarrow> nat" where
  "loop_fuel m = 2 * brk m + 2"

subsection \<open>Reading a memory after an update\<close>

lemma palloc_simps [simp, mem_simps]:
  "fst (palloc m c) = brk m"
  "heap (snd (palloc m c)) = (heap m)(brk m \<mapsto> c)"
  "brk (snd (palloc m c)) = Suc (brk m)"
  by (simp_all add: palloc_def)

lemma store_simps [simp, mem_simps]:
  "heap (store_list m p h) = (heap m)(p \<mapsto> ListHdr h)"
  "heap (store_cell m p c) = (heap m)(p \<mapsto> ListCell c)"
  "brk (store_list m p h) = brk m"
  "brk (store_cell m p c) = brk m"
  by (simp_all add: store_list_def store_cell_def)

lemma load_list_iff: "load_list m p = Inr h \<longleftrightarrow> p \<noteq> 0 \<and> heap m p = Some (ListHdr h)"
  by (auto simp: load_list_def split: option.splits chunk.splits)

lemma load_cell_iff: "load_cell m p = Inr c \<longleftrightarrow> p \<noteq> 0 \<and> heap m p = Some (ListCell c)"
  by (auto simp: load_cell_def split: option.splits chunk.splits)

lemma load_obj_iff: "load_obj m p = Inr x \<longleftrightarrow> p \<noteq> 0 \<and> heap m p = Some (Obj x)"
  by (auto simp: load_obj_def split: option.splits chunk.splits)

lemma load_null [simp]: "load_list m 0 = Inl Segv" "load_cell m 0 = Inl Segv" "load_obj m 0 = Inl Segv"
  by (simp_all add: load_list_def load_cell_def load_obj_def)

lemma mem_ok_empty [simp]: "mem_ok empty_mem"
  by (simp add: mem_ok_def empty_mem_def)

lemma mem_ok_palloc: "mem_ok m \<Longrightarrow> palloc m c = (p, m') \<Longrightarrow> mem_ok m'"
  by (auto simp: mem_ok_def palloc_def)

lemma mem_ok_brk: "mem_ok m \<Longrightarrow> heap m a \<noteq> None \<Longrightarrow> a < brk m"
  by (rule ccontr) (simp add: mem_ok_def)

lemma mem_ok_allocated: "mem_ok m \<Longrightarrow> heap m a = Some c \<Longrightarrow> 0 < a \<and> a < brk m"
  using mem_ok_brk [of m a] by (cases "a = 0") (simp_all add: mem_ok_def)

lemma mem_ok_store:
  assumes "mem_ok m" and "heap m p = Some c"
  shows "mem_ok (store_cell m p x)" and "mem_ok (store_list m p y)"
  using assms mem_ok_allocated [OF assms] by (auto simp: mem_ok_def)

text \<open>
  Framing: \<open>agree A m m'\<close> says that \<open>m'\<close> is a later memory that still holds what \<open>m\<close>
  held, except possibly at the addresses in \<open>A\<close>.
\<close>

definition agree :: "nat set \<Rightarrow> 'o mem \<Rightarrow> 'o mem \<Rightarrow> bool" where
  "agree A m m' \<longleftrightarrow> brk m \<le> brk m' \<and> (\<forall>a. a < brk m \<longrightarrow> a \<notin> A \<longrightarrow> heap m' a = heap m a)"

lemma agree_refl [simp]: "agree A m m"
  by (simp add: agree_def)

lemma agree_trans: "agree A m1 m2 \<Longrightarrow> agree A m2 m3 \<Longrightarrow> agree A m1 m3"
  by (auto simp: agree_def)

lemma agree_mono: "agree A m m' \<Longrightarrow> A \<subseteq> B \<Longrightarrow> agree B m m'"
  by (auto simp: agree_def)

text \<open>Chunks allocated since \<open>m\<close> may change freely.\<close>

lemma agree_trans_new:
  assumes "agree A m1 m2" and "agree B m2 m3" and "B \<subseteq> A \<union> {a. brk m1 \<le> a}"
  shows "agree A m1 m3"
  unfolding agree_def
proof (intro conjI allI impI)
  show "brk m1 \<le> brk m3"
    using assms(1,2) by (simp add: agree_def)
  fix a assume a: "a < brk m1" "a \<notin> A"
  then have "a \<notin> B" "a < brk m2"
    using assms(1,3) by (auto simp: agree_def)
  with a assms(1,2) show "heap m3 a = heap m1 a"
    by (simp add: agree_def)
qed

lemma agree_palloc: "palloc m c = (p, m') \<Longrightarrow> agree A m m'"
  by (auto simp: agree_def palloc_def)

lemma agree_heap: "agree A m m' \<Longrightarrow> mem_ok m \<Longrightarrow> heap m a = Some c \<Longrightarrow> a \<notin> A \<Longrightarrow> heap m' a = Some c"
  by (auto simp: agree_def dest: mem_ok_allocated)

end
