(* ===== verification/Pg_List.thy ===== *)
theory Pg_List
  imports Pg_Memory
begin

section \<open>PostgreSQL's List package (\<open>backend/nodes/list.c\<close>, \<open>nodes/pg_list.h\<close>)\<close>

text \<open>
  The singly linked lists with a header that the whole plug-in is written in, as \<open>list.c\<close>
  implements them: operations update headers and cells in place, \<open>list_concat\<close> makes the two
  lists share cells, and a copy is explicit. The build is the one without assertion checking
  (\<open>configure\<close> was run with no options), so an \<open>Assert\<close> has no effect and the code after it
  runs on whatever it is given.

  Each function takes the memory first and returns the new memory with its result. The three
  variants of a function (pointers, integers, OIDs) share a generic body as the C code shares its
  text. \<open>equal()\<close> of \<open>equalfuncs.c\<close> is the argument \<open>eqf\<close> of the functions that use it.
\<close>

subsection \<open>Access (\<open>pg_list.h\<close>)\<close>

definition list_head :: "'o mem \<Rightarrow> nat \<Rightarrow> nat res" where
  "list_head m l = (if l = 0 then Inr 0 else bnd (load_list m l) (\<lambda>h. Inr (lhead h)))"

definition list_tail :: "'o mem \<Rightarrow> nat \<Rightarrow> nat res" where
  "list_tail m l = (if l = 0 then Inr 0 else bnd (load_list m l) (\<lambda>h. Inr (ltail h)))"

definition list_length :: "'o mem \<Rightarrow> nat \<Rightarrow> int res" where
  "list_length m l = (if l = 0 then Inr 0 else bnd (load_list m l) (\<lambda>h. Inr (llength h)))"

subsection \<open>Construction\<close>

definition new_list :: "'o mem \<Rightarrow> list_tag \<Rightarrow> nat \<times> 'o mem" where
  "new_list m tag =
     (let (new_head, m) = palloc m (ListCell \<lparr>cdata = Undef, cnext = 0\<rparr>)
      in palloc m (ListHdr \<lparr>ltype = tag, llength = 1, lhead = new_head, ltail = new_head\<rparr>))"

definition new_head_cell :: "'o mem \<Rightarrow> nat \<Rightarrow> 'o mem res" where
  "new_head_cell m l =
     bnd (load_list m l) (\<lambda>h.
       let (new_head, m) = palloc m (ListCell \<lparr>cdata = Undef, cnext = lhead h\<rparr>)
       in Inr (store_list m l (h\<lparr>lhead := new_head, llength := llength h + 1\<rparr>)))"

definition new_tail_cell :: "'o mem \<Rightarrow> nat \<Rightarrow> 'o mem res" where
  "new_tail_cell m l =
     (let (new_tail, m) = palloc m (ListCell \<lparr>cdata = Undef, cnext = 0\<rparr>)
      in bnd (load_list m l) (\<lambda>h.
         bnd (set_next m (ltail h) new_tail) (\<lambda>m.
         Inr (store_list m l (h\<lparr>ltail := new_tail, llength := llength h + 1\<rparr>)))))"

definition lappend_with :: "list_tag \<Rightarrow> 'o mem \<Rightarrow> nat \<Rightarrow> lval \<Rightarrow> (nat \<times> 'o mem) res" where
  "lappend_with tag m l datum =
     bnd (if l = 0 then Inr (new_list m tag) else bnd (new_tail_cell m l) (\<lambda>m. Inr (l, m))) (\<lambda>(l, m).
     bnd (load_list m l) (\<lambda>h.
     bnd (set_data m (ltail h) datum) (\<lambda>m.
     Inr (l, m))))"

definition lappend :: "'o mem \<Rightarrow> nat \<Rightarrow> nat \<Rightarrow> (nat \<times> 'o mem) res" where
  "lappend m l datum = lappend_with T_List m l (Ptr datum)"

definition lappend_int :: "'o mem \<Rightarrow> nat \<Rightarrow> int \<Rightarrow> (nat \<times> 'o mem) res" where
  "lappend_int m l datum = lappend_with T_IntList m l (IntV datum)"

definition lappend_oid :: "'o mem \<Rightarrow> nat \<Rightarrow> nat \<Rightarrow> (nat \<times> 'o mem) res" where
  "lappend_oid m l datum = lappend_with T_OidList m l (OidV datum)"

definition add_new_cell :: "'o mem \<Rightarrow> nat \<Rightarrow> nat \<Rightarrow> (nat \<times> 'o mem) res" where
  "add_new_cell m l prev_cell =
     bnd (load_cell m prev_cell) (\<lambda>pc.
       let (new_cell, m) = palloc m (ListCell \<lparr>cdata = Undef, cnext = cnext pc\<rparr>)
       in bnd (set_next m prev_cell new_cell) (\<lambda>m.
          bnd (load_list m l) (\<lambda>h.
          Inr (new_cell,
               store_list m l (h\<lparr>ltail := (if ltail h = prev_cell then new_cell else ltail h),
                                 llength := llength h + 1\<rparr>)))))"

definition lappend_cell_with :: "'o mem \<Rightarrow> nat \<Rightarrow> nat \<Rightarrow> lval \<Rightarrow> (nat \<times> 'o mem) res" where
  "lappend_cell_with m l prev datum =
     bnd (add_new_cell m l prev) (\<lambda>(new_cell, m).
     bnd (set_data m new_cell datum) (\<lambda>m.
     Inr (new_cell, m)))"

definition lappend_cell :: "'o mem \<Rightarrow> nat \<Rightarrow> nat \<Rightarrow> nat \<Rightarrow> (nat \<times> 'o mem) res" where
  "lappend_cell m l prev datum = lappend_cell_with m l prev (Ptr datum)"

definition lappend_cell_int :: "'o mem \<Rightarrow> nat \<Rightarrow> nat \<Rightarrow> int \<Rightarrow> (nat \<times> 'o mem) res" where
  "lappend_cell_int m l prev datum = lappend_cell_with m l prev (IntV datum)"

definition lappend_cell_oid :: "'o mem \<Rightarrow> nat \<Rightarrow> nat \<Rightarrow> nat \<Rightarrow> (nat \<times> 'o mem) res" where
  "lappend_cell_oid m l prev datum = lappend_cell_with m l prev (OidV datum)"

definition lcons_with :: "list_tag \<Rightarrow> 'o mem \<Rightarrow> lval \<Rightarrow> nat \<Rightarrow> (nat \<times> 'o mem) res" where
  "lcons_with tag m datum l =
     bnd (if l = 0 then Inr (new_list m tag) else bnd (new_head_cell m l) (\<lambda>m. Inr (l, m))) (\<lambda>(l, m).
     bnd (load_list m l) (\<lambda>h.
     bnd (set_data m (lhead h) datum) (\<lambda>m.
     Inr (l, m))))"

definition lcons :: "'o mem \<Rightarrow> nat \<Rightarrow> nat \<Rightarrow> (nat \<times> 'o mem) res" where
  "lcons m datum l = lcons_with T_List m (Ptr datum) l"

definition lcons_int :: "'o mem \<Rightarrow> int \<Rightarrow> nat \<Rightarrow> (nat \<times> 'o mem) res" where
  "lcons_int m datum l = lcons_with T_IntList m (IntV datum) l"

definition lcons_oid :: "'o mem \<Rightarrow> nat \<Rightarrow> nat \<Rightarrow> (nat \<times> 'o mem) res" where
  "lcons_oid m datum l = lcons_with T_OidList m (OidV datum) l"

definition list_concat :: "'o mem \<Rightarrow> nat \<Rightarrow> nat \<Rightarrow> (nat \<times> 'o mem) res" where
  "list_concat m list1 list2 =
     (if list1 = 0 then Inr (list2, m)
      else if list2 = 0 then Inr (list1, m)
      else if list1 = list2 then Inl (Elog ''cannot list_concat() a list to itself'')
      else bnd (load_list m list1) (\<lambda>h1.
           bnd (load_list m list2) (\<lambda>h2.
           bnd (set_next m (ltail h1) (lhead h2)) (\<lambda>m.
           Inr (list1, store_list m list1 (h1\<lparr>llength := llength h1 + llength h2, ltail := ltail h2\<rparr>))))))"

fun truncate_loop :: "nat \<Rightarrow> 'o mem \<Rightarrow> nat \<Rightarrow> nat \<Rightarrow> int \<Rightarrow> int \<Rightarrow> (nat \<times> 'o mem) res" where
  "truncate_loop 0 m l cell n new_size = Inl Loop"
| "truncate_loop (Suc fuel) m l cell n new_size =
     (if cell = 0 then Inr (l, m)
      else if n = new_size then
        bnd (set_next m cell 0) (\<lambda>m.
        bnd (load_list m l) (\<lambda>h.
        Inr (l, store_list m l (h\<lparr>ltail := cell, llength := new_size\<rparr>))))
      else bnd (load_cell m cell) (\<lambda>c. truncate_loop fuel m l (cnext c) (n + 1) new_size))"

definition list_truncate :: "'o mem \<Rightarrow> nat \<Rightarrow> int \<Rightarrow> (nat \<times> 'o mem) res" where
  "list_truncate m l new_size =
     (if new_size \<le> 0 then Inr (0, m)
      else bnd (list_length m l) (\<lambda>len.
        if new_size \<ge> len then Inr (l, m)
        else bnd (list_head m l) (\<lambda>cell. truncate_loop (loop_fuel m) m l cell 1 new_size)))"

subsection \<open>Element access and membership\<close>

fun nth_loop :: "nat \<Rightarrow> 'o mem \<Rightarrow> nat \<Rightarrow> nat res" where
  "nth_loop 0 m match = Inr match"
| "nth_loop (Suc n) m match = bnd (load_cell m match) (\<lambda>c. nth_loop n m (cnext c))"

definition list_nth_cell :: "'o mem \<Rightarrow> nat \<Rightarrow> int \<Rightarrow> nat res" where
  "list_nth_cell m l n =
     bnd (load_list m l) (\<lambda>h.
       if n = llength h - 1 then Inr (ltail h) else nth_loop (nat n) m (lhead h))"

definition list_nth :: "'o mem \<Rightarrow> nat \<Rightarrow> int \<Rightarrow> nat res" where
  "list_nth m l n = bnd (list_nth_cell m l n) (lfirst m)"

definition list_nth_int :: "'o mem \<Rightarrow> nat \<Rightarrow> int \<Rightarrow> int res" where
  "list_nth_int m l n = bnd (list_nth_cell m l n) (lfirst_int m)"

definition list_nth_oid :: "'o mem \<Rightarrow> nat \<Rightarrow> int \<Rightarrow> nat res" where
  "list_nth_oid m l n = bnd (list_nth_cell m l n) (lfirst_oid m)"

fun member_loop :: "nat \<Rightarrow> 'o mem \<Rightarrow> (lval \<Rightarrow> bool res) \<Rightarrow> nat \<Rightarrow> bool res" where
  "member_loop 0 m test cell = Inl Loop"
| "member_loop (Suc fuel) m test cell =
     (if cell = 0 then Inr False
      else bnd (load_cell m cell) (\<lambda>c.
           bnd (test (cdata c)) (\<lambda>b.
           if b then Inr True else member_loop fuel m test (cnext c))))"

definition list_member_with :: "'o mem \<Rightarrow> (lval \<Rightarrow> bool res) \<Rightarrow> nat \<Rightarrow> bool res" where
  "list_member_with m test l = bnd (list_head m l) (member_loop (loop_fuel m) m test)"

type_synonym 'o node_eq = "'o mem \<Rightarrow> nat \<Rightarrow> nat \<Rightarrow> bool res"

definition list_member :: "'o node_eq \<Rightarrow> 'o mem \<Rightarrow> nat \<Rightarrow> nat \<Rightarrow> bool res" where
  "list_member eqf m l datum = list_member_with m (\<lambda>d. bnd (as_ptr d) (\<lambda>p. eqf m p datum)) l"

definition list_member_ptr :: "'o mem \<Rightarrow> nat \<Rightarrow> nat \<Rightarrow> bool res" where
  "list_member_ptr m l datum = list_member_with m (\<lambda>d. bnd (as_ptr d) (\<lambda>p. Inr (p = datum))) l"

definition list_member_int :: "'o mem \<Rightarrow> nat \<Rightarrow> int \<Rightarrow> bool res" where
  "list_member_int m l datum = list_member_with m (\<lambda>d. bnd (as_int d) (\<lambda>i. Inr (i = datum))) l"

definition list_member_oid :: "'o mem \<Rightarrow> nat \<Rightarrow> nat \<Rightarrow> bool res" where
  "list_member_oid m l datum = list_member_with m (\<lambda>d. bnd (as_oid d) (\<lambda>i. Inr (i = datum))) l"

subsection \<open>Release\<close>

fun free_loop :: "nat \<Rightarrow> 'o mem \<Rightarrow> bool \<Rightarrow> nat \<Rightarrow> 'o mem res" where
  "free_loop 0 m deep cell = Inl Loop"
| "free_loop (Suc fuel) m deep cell =
     (if cell = 0 then Inr m
      else bnd (load_cell m cell) (\<lambda>c.
           bnd (if deep then bnd (as_ptr (cdata c)) (pfree m) else Inr m) (\<lambda>m.
           bnd (pfree m cell) (\<lambda>m.
           free_loop fuel m deep (cnext c)))))"

definition list_free_private :: "'o mem \<Rightarrow> nat \<Rightarrow> bool \<Rightarrow> 'o mem res" where
  "list_free_private m l deep =
     bnd (list_head m l) (\<lambda>cell.
     bnd (free_loop (loop_fuel m) m deep cell) (\<lambda>m.
     if l \<noteq> 0 then pfree m l else Inr m))"

definition list_free :: "'o mem \<Rightarrow> nat \<Rightarrow> 'o mem res" where
  "list_free m l = list_free_private m l False"

definition list_free_deep :: "'o mem \<Rightarrow> nat \<Rightarrow> 'o mem res" where
  "list_free_deep m l = list_free_private m l True"

subsection \<open>Deletion\<close>

definition list_delete_cell :: "'o mem \<Rightarrow> nat \<Rightarrow> nat \<Rightarrow> nat \<Rightarrow> (nat \<times> 'o mem) res" where
  "list_delete_cell m l cell prev =
     bnd (load_list m l) (\<lambda>h.
       if llength h = 1 then bnd (list_free m l) (\<lambda>m. Inr (0, m))
       else bnd (load_cell m cell) (\<lambda>c.
            bnd (if prev \<noteq> 0 then set_next m prev (cnext c) else Inr m) (\<lambda>m.
              let m = store_list m l
                        (h\<lparr>llength := llength h - 1,
                           lhead := (if prev \<noteq> 0 then lhead h else cnext c),
                           ltail := (if ltail h = cell then prev else ltail h)\<rparr>)
              in bnd (pfree m cell) (\<lambda>m. Inr (l, m)))))"

fun delete_loop :: "nat \<Rightarrow> 'o mem \<Rightarrow> (lval \<Rightarrow> bool res) \<Rightarrow> nat \<Rightarrow> nat \<Rightarrow> nat \<Rightarrow> (nat \<times> 'o mem) res" where
  "delete_loop 0 m test l cell prev = Inl Loop"
| "delete_loop (Suc fuel) m test l cell prev =
     (if cell = 0 then Inr (l, m)
      else bnd (load_cell m cell) (\<lambda>c.
           bnd (test (cdata c)) (\<lambda>b.
           if b then list_delete_cell m l cell prev
           else delete_loop fuel m test l (cnext c) cell)))"

definition list_delete_with :: "'o mem \<Rightarrow> (lval \<Rightarrow> bool res) \<Rightarrow> nat \<Rightarrow> (nat \<times> 'o mem) res" where
  "list_delete_with m test l = bnd (list_head m l) (\<lambda>cell. delete_loop (loop_fuel m) m test l cell 0)"

definition list_delete :: "'o node_eq \<Rightarrow> 'o mem \<Rightarrow> nat \<Rightarrow> nat \<Rightarrow> (nat \<times> 'o mem) res" where
  "list_delete eqf m l datum = list_delete_with m (\<lambda>d. bnd (as_ptr d) (\<lambda>p. eqf m p datum)) l"

definition list_delete_ptr :: "'o mem \<Rightarrow> nat \<Rightarrow> nat \<Rightarrow> (nat \<times> 'o mem) res" where
  "list_delete_ptr m l datum = list_delete_with m (\<lambda>d. bnd (as_ptr d) (\<lambda>p. Inr (p = datum))) l"

definition list_delete_int :: "'o mem \<Rightarrow> nat \<Rightarrow> int \<Rightarrow> (nat \<times> 'o mem) res" where
  "list_delete_int m l datum = list_delete_with m (\<lambda>d. bnd (as_int d) (\<lambda>i. Inr (i = datum))) l"

definition list_delete_oid :: "'o mem \<Rightarrow> nat \<Rightarrow> nat \<Rightarrow> (nat \<times> 'o mem) res" where
  "list_delete_oid m l datum = list_delete_with m (\<lambda>d. bnd (as_oid d) (\<lambda>i. Inr (i = datum))) l"

definition list_delete_first :: "'o mem \<Rightarrow> nat \<Rightarrow> (nat \<times> 'o mem) res" where
  "list_delete_first m l =
     (if l = 0 then Inr (0, m) else bnd (list_head m l) (\<lambda>cell. list_delete_cell m l cell 0))"

subsection \<open>Copies\<close>

fun copy_loop :: "nat \<Rightarrow> 'o mem \<Rightarrow> nat \<Rightarrow> nat \<Rightarrow> (nat \<times> 'o mem) res" where
  "copy_loop 0 m prev cur = Inl Loop"
| "copy_loop (Suc fuel) m prev cur =
     (if cur = 0 then Inr (prev, m)
      else bnd (load_cell m cur) (\<lambda>c.
        let (newcur, m) = palloc m (ListCell \<lparr>cdata = cdata c, cnext = 0\<rparr>)
        in bnd (set_next m prev newcur) (\<lambda>m.
           copy_loop fuel m newcur (cnext c))))"

text \<open>The part \<open>list_copy\<close> and \<open>list_copy_tail\<close> share: copy the chain from \<open>cur\<close> into a new list.\<close>

definition copy_from :: "'o mem \<Rightarrow> list_tag \<Rightarrow> int \<Rightarrow> nat \<Rightarrow> (nat \<times> 'o mem) res" where
  "copy_from m tag len cur =
     bnd (load_cell m cur) (\<lambda>c.
       let (newlist, m) = new_list m tag
       in bnd (load_list m newlist) (\<lambda>nh.
          bnd (set_data m (lhead nh) (cdata c)) (\<lambda>m.
          bnd (copy_loop (loop_fuel m) m (lhead nh) (cnext c)) (\<lambda>(prev, m).
          bnd (set_next m prev 0) (\<lambda>m.
          Inr (newlist, store_list m newlist (nh\<lparr>llength := len, ltail := prev\<rparr>)))))))"

definition list_copy :: "'o mem \<Rightarrow> nat \<Rightarrow> (nat \<times> 'o mem) res" where
  "list_copy m oldlist =
     (if oldlist = 0 then Inr (0, m)
      else bnd (load_list m oldlist) (\<lambda>oh. copy_from m (ltype oh) (llength oh) (lhead oh)))"

definition list_copy_tail :: "'o mem \<Rightarrow> nat \<Rightarrow> int \<Rightarrow> (nat \<times> 'o mem) res" where
  "list_copy_tail m oldlist nskip =
     (let nskip = (if nskip < 0 then 0 else nskip)
      in if oldlist = 0 then Inr (0, m)
         else bnd (load_list m oldlist) (\<lambda>oh.
           if nskip \<ge> llength oh then Inr (0, m)
           else bnd (nth_loop (nat nskip) m (lhead oh)) (\<lambda>cur.
                copy_from m (ltype oh) (llength oh - nskip) cur)))"

subsection \<open>Set operations\<close>

text \<open>
  The loop of \<open>list_union\<close>, \<open>list_intersection\<close>, \<open>list_difference\<close> and
  \<open>list_concat_unique\<close>: visit the cells from \<open>cell\<close> and append to \<open>result\<close> the data that
  \<open>keep\<close> accepts. The \<open>next\<close> field is read after the body has run.
\<close>

fun collect_loop ::
  "nat \<Rightarrow> ('o mem \<Rightarrow> nat \<Rightarrow> lval \<Rightarrow> bool res) \<Rightarrow> list_tag \<Rightarrow> 'o mem \<Rightarrow> nat \<Rightarrow> nat \<Rightarrow> (nat \<times> 'o mem) res"
where
  "collect_loop 0 keep tag m result cell = Inl Loop"
| "collect_loop (Suc fuel) keep tag m result cell =
     (if cell = 0 then Inr (result, m)
      else bnd (load_cell m cell) (\<lambda>c.
           bnd (keep m result (cdata c)) (\<lambda>k.
           bnd (if k then lappend_with tag m result (cdata c) else Inr (result, m)) (\<lambda>(result, m).
           bnd (load_cell m cell) (\<lambda>c.
           collect_loop fuel keep tag m result (cnext c))))))"

definition collect :: "('o mem \<Rightarrow> nat \<Rightarrow> lval \<Rightarrow> bool res) \<Rightarrow> list_tag \<Rightarrow> 'o mem \<Rightarrow> nat \<Rightarrow> nat \<Rightarrow> (nat \<times> 'o mem) res" where
  "collect keep tag m result l = bnd (list_head m l) (collect_loop (loop_fuel m) keep tag m result)"

definition not_in :: "('o mem \<Rightarrow> nat \<Rightarrow> lval \<Rightarrow> bool res) \<Rightarrow> 'o mem \<Rightarrow> nat \<Rightarrow> lval \<Rightarrow> bool res" where
  "not_in member m l d = bnd (member m l d) (\<lambda>b. Inr (\<not> b))"

text \<open>Membership of a cell's data, in the four variants of the package.\<close>

definition mem_equal :: "'o node_eq \<Rightarrow> 'o mem \<Rightarrow> nat \<Rightarrow> lval \<Rightarrow> bool res" where
  "mem_equal eqf m l d = bnd (as_ptr d) (list_member eqf m l)"

definition mem_ptr :: "'o mem \<Rightarrow> nat \<Rightarrow> lval \<Rightarrow> bool res" where
  "mem_ptr m l d = bnd (as_ptr d) (list_member_ptr m l)"

definition mem_int :: "'o mem \<Rightarrow> nat \<Rightarrow> lval \<Rightarrow> bool res" where
  "mem_int m l d = bnd (as_int d) (list_member_int m l)"

definition mem_oid :: "'o mem \<Rightarrow> nat \<Rightarrow> lval \<Rightarrow> bool res" where
  "mem_oid m l d = bnd (as_oid d) (list_member_oid m l)"

definition list_union :: "'o node_eq \<Rightarrow> 'o mem \<Rightarrow> nat \<Rightarrow> nat \<Rightarrow> (nat \<times> 'o mem) res" where
  "list_union eqf m list1 list2 =
     bnd (list_copy m list1) (\<lambda>(result, m). collect (not_in (mem_equal eqf)) T_List m result list2)"

definition list_union_ptr :: "'o mem \<Rightarrow> nat \<Rightarrow> nat \<Rightarrow> (nat \<times> 'o mem) res" where
  "list_union_ptr m list1 list2 =
     bnd (list_copy m list1) (\<lambda>(result, m). collect (not_in mem_ptr) T_List m result list2)"

definition list_union_int :: "'o mem \<Rightarrow> nat \<Rightarrow> nat \<Rightarrow> (nat \<times> 'o mem) res" where
  "list_union_int m list1 list2 =
     bnd (list_copy m list1) (\<lambda>(result, m). collect (not_in mem_int) T_IntList m result list2)"

definition list_union_oid :: "'o mem \<Rightarrow> nat \<Rightarrow> nat \<Rightarrow> (nat \<times> 'o mem) res" where
  "list_union_oid m list1 list2 =
     bnd (list_copy m list1) (\<lambda>(result, m). collect (not_in mem_oid) T_OidList m result list2)"

definition list_intersection :: "'o node_eq \<Rightarrow> 'o mem \<Rightarrow> nat \<Rightarrow> nat \<Rightarrow> (nat \<times> 'o mem) res" where
  "list_intersection eqf m list1 list2 =
     (if list1 = 0 \<or> list2 = 0 then Inr (0, m)
      else collect (\<lambda>m _ d. mem_equal eqf m list2 d) T_List m 0 list1)"

definition list_intersection_int :: "'o mem \<Rightarrow> nat \<Rightarrow> nat \<Rightarrow> (nat \<times> 'o mem) res" where
  "list_intersection_int m list1 list2 =
     (if list1 = 0 \<or> list2 = 0 then Inr (0, m)
      else collect (\<lambda>m _ d. mem_int m list2 d) T_IntList m 0 list1)"

definition list_difference :: "'o node_eq \<Rightarrow> 'o mem \<Rightarrow> nat \<Rightarrow> nat \<Rightarrow> (nat \<times> 'o mem) res" where
  "list_difference eqf m list1 list2 =
     (if list2 = 0 then list_copy m list1
      else collect (\<lambda>m _ d. not_in (mem_equal eqf) m list2 d) T_List m 0 list1)"

definition list_difference_ptr :: "'o mem \<Rightarrow> nat \<Rightarrow> nat \<Rightarrow> (nat \<times> 'o mem) res" where
  "list_difference_ptr m list1 list2 =
     (if list2 = 0 then list_copy m list1
      else collect (\<lambda>m _ d. not_in mem_ptr m list2 d) T_List m 0 list1)"

definition list_difference_int :: "'o mem \<Rightarrow> nat \<Rightarrow> nat \<Rightarrow> (nat \<times> 'o mem) res" where
  "list_difference_int m list1 list2 =
     (if list2 = 0 then list_copy m list1
      else collect (\<lambda>m _ d. not_in mem_int m list2 d) T_IntList m 0 list1)"

definition list_difference_oid :: "'o mem \<Rightarrow> nat \<Rightarrow> nat \<Rightarrow> (nat \<times> 'o mem) res" where
  "list_difference_oid m list1 list2 =
     (if list2 = 0 then list_copy m list1
      else collect (\<lambda>m _ d. not_in mem_oid m list2 d) T_OidList m 0 list1)"

definition list_append_unique :: "'o node_eq \<Rightarrow> 'o mem \<Rightarrow> nat \<Rightarrow> nat \<Rightarrow> (nat \<times> 'o mem) res" where
  "list_append_unique eqf m l datum =
     bnd (list_member eqf m l datum) (\<lambda>b. if b then Inr (l, m) else lappend m l datum)"

definition list_append_unique_ptr :: "'o mem \<Rightarrow> nat \<Rightarrow> nat \<Rightarrow> (nat \<times> 'o mem) res" where
  "list_append_unique_ptr m l datum =
     bnd (list_member_ptr m l datum) (\<lambda>b. if b then Inr (l, m) else lappend m l datum)"

definition list_append_unique_int :: "'o mem \<Rightarrow> nat \<Rightarrow> int \<Rightarrow> (nat \<times> 'o mem) res" where
  "list_append_unique_int m l datum =
     bnd (list_member_int m l datum) (\<lambda>b. if b then Inr (l, m) else lappend_int m l datum)"

definition list_append_unique_oid :: "'o mem \<Rightarrow> nat \<Rightarrow> nat \<Rightarrow> (nat \<times> 'o mem) res" where
  "list_append_unique_oid m l datum =
     bnd (list_member_oid m l datum) (\<lambda>b. if b then Inr (l, m) else lappend_oid m l datum)"

definition list_concat_unique :: "'o node_eq \<Rightarrow> 'o mem \<Rightarrow> nat \<Rightarrow> nat \<Rightarrow> (nat \<times> 'o mem) res" where
  "list_concat_unique eqf m list1 list2 = collect (not_in (mem_equal eqf)) T_List m list1 list2"

definition list_concat_unique_ptr :: "'o mem \<Rightarrow> nat \<Rightarrow> nat \<Rightarrow> (nat \<times> 'o mem) res" where
  "list_concat_unique_ptr m list1 list2 = collect (not_in mem_ptr) T_List m list1 list2"

definition list_concat_unique_int :: "'o mem \<Rightarrow> nat \<Rightarrow> nat \<Rightarrow> (nat \<times> 'o mem) res" where
  "list_concat_unique_int m list1 list2 = collect (not_in mem_int) T_IntList m list1 list2"

definition list_concat_unique_oid :: "'o mem \<Rightarrow> nat \<Rightarrow> nat \<Rightarrow> (nat \<times> 'o mem) res" where
  "list_concat_unique_oid m list1 list2 = collect (not_in mem_oid) T_OidList m list1 list2"

end
