(* ===== verification/Pg_List_Rep.thy ===== *)
theory Pg_List_Rep
  imports Pg_List
begin

section \<open>What the List package promises\<close>

text \<open>
  The abstraction from memory to HOL lists. \<open>seg m p cs q\<close> is a path of cells from \<open>p\<close> to
  \<open>q\<close>; \<open>list_rep m l tag cs\<close> is the invariant \<open>check_list_invariants\<close> of \<open>list.c\<close> tests a
  part of: the header at \<open>l\<close> counts its cells and points at the first and the last of them, the
  last cell ends the chain, and the only empty list is \<open>NIL\<close>. \<open>owns m l tag vs F\<close> forgets the
  cells, keeping the values \<open>vs\<close> and the set \<open>F\<close> of addresses the list occupies. The
  operations of \<open>list.c\<close> are proved to implement their counterparts on HOL lists, together with
  what they leave alone.
\<close>

type_synonym cells = "(nat \<times> lval) list"

fun seg :: "'o mem \<Rightarrow> nat \<Rightarrow> cells \<Rightarrow> nat \<Rightarrow> bool" where
  "seg m p [] q \<longleftrightarrow> p = q"
| "seg m p ((a, d) # cs) q \<longleftrightarrow>
     p = a \<and> a \<noteq> 0 \<and> (\<exists>n. heap m a = Some (ListCell \<lparr>cdata = d, cnext = n\<rparr>) \<and> seg m n cs q)"

abbreviation chain :: "'o mem \<Rightarrow> nat \<Rightarrow> cells \<Rightarrow> bool" where
  "chain m p cs \<equiv> seg m p cs 0"

abbreviation addrs :: "cells \<Rightarrow> nat set" where
  "addrs cs \<equiv> fst ` set cs"

definition list_rep :: "'o mem \<Rightarrow> nat \<Rightarrow> list_tag \<Rightarrow> cells \<Rightarrow> bool" where
  "list_rep m l tag cs \<longleftrightarrow>
     (if l = 0 then cs = []
      else cs \<noteq> [] \<and>
           heap m l = Some (ListHdr \<lparr>ltype = tag, llength = int (length cs),
                                      lhead = fst (hd cs), ltail = fst (last cs)\<rparr>) \<and>
           chain m (fst (hd cs)) cs)"

definition footprint :: "nat \<Rightarrow> cells \<Rightarrow> nat set" where
  "footprint l cs = (if l = 0 then {} else insert l (addrs cs))"

definition owns :: "'o mem \<Rightarrow> nat \<Rightarrow> list_tag \<Rightarrow> lval list \<Rightarrow> nat set \<Rightarrow> bool" where
  "owns m l tag vs F \<longleftrightarrow> (\<exists>cs. list_rep m l tag cs \<and> map snd cs = vs \<and> F = footprint l cs)"

text \<open>
  The outcome of an operation that returns a list: it succeeds, the new memory is well formed and
  differs from the old one only in \<open>F\<close> and in fresh chunks, and the result owns nothing else.
\<close>

definition yields :: "'o mem \<Rightarrow> nat set \<Rightarrow> list_tag \<Rightarrow> lval list \<Rightarrow> (nat \<times> 'o mem) res \<Rightarrow> bool" where
  "yields m F tag vs r \<longleftrightarrow>
     (\<exists>l' m' F'. r = Inr (l', m') \<and> mem_ok m' \<and> agree F m m' \<and> owns m' l' tag vs F' \<and>
                 F' \<subseteq> F \<union> {a. brk m \<le> a})"

subsection \<open>Paths\<close>

lemma seg_append: "seg m p (cs @ ds) q \<longleftrightarrow> (\<exists>r. seg m p cs r \<and> seg m r ds q)"
proof (induction cs arbitrary: p)
  case Nil
  show ?case by simp
next
  case (Cons c cs)
  then show ?case by (cases c) auto
qed

lemma seg_cong:
  "(\<And>a. a \<in> addrs cs \<Longrightarrow> heap m' a = heap m a) \<Longrightarrow> seg m' p cs q = seg m p cs q"
  by (induction cs arbitrary: p) auto

lemma seg_allocated: "seg m p cs q \<Longrightarrow> a \<in> addrs cs \<Longrightarrow> \<exists>c. heap m a = Some (ListCell c)"
proof (induction cs arbitrary: p)
  case Nil
  then show ?case by simp
next
  case (Cons c cs)
  obtain b d where c: "c = (b, d)" by (cases c)
  with Cons.prems obtain n where n: "heap m b = Some (ListCell \<lparr>cdata = d, cnext = n\<rparr>)" "seg m n cs q"
    by auto
  show ?case
    using Cons.IH [OF n(2)] Cons.prems(2) n(1) c by (cases "a = b") simp_all
qed

lemma chain_unique: "chain m p cs \<Longrightarrow> chain m p ds \<Longrightarrow> cs = ds"
proof (induction cs arbitrary: p ds)
  case Nil
  then show ?case by (cases ds) auto
next
  case (Cons c cs)
  then show ?case by (cases ds; cases c) auto
qed

lemma chain_suffix:
  assumes "chain m p (cs @ (a, d) # ds)"
  shows "chain m a ((a, d) # ds)"
  using assms by (auto simp: seg_append)

lemma chain_distinct: "chain m p cs \<Longrightarrow> distinct (map fst cs)"
proof (induction cs arbitrary: p)
  case Nil
  show ?case by simp
next
  case (Cons c cs)
  obtain a d where c: "c = (a, d)" by (cases c)
  have "a \<notin> fst ` set cs"
  proof
    assume "a \<in> fst ` set cs"
    then obtain d' us vs where cs: "cs = us @ (a, d') # vs"
      by (auto dest!: split_list)
    have "chain m a ((a, d) # cs)"
      using Cons.prems c by simp
    moreover have "chain m a ((a, d') # vs)"
      using chain_suffix [of m a "(a, d) # us" a d' vs] calculation cs by simp
    ultimately have "length ((a, d) # cs) = length ((a, d') # vs)"
      using chain_unique by metis
    with cs show False by simp
  qed
  moreover have "distinct (map fst cs)"
    using Cons c by auto
  ultimately show ?case using c by simp
qed

lemma chain_length:
  assumes "mem_ok m" and "chain m p cs"
  shows "length cs < brk m"
proof -
  have sub: "insert 0 (addrs cs) \<subseteq> {0..<brk m}"
    using assms seg_allocated [OF assms(2)] mem_ok_allocated [OF assms(1)]
    by (fastforce simp: mem_ok_def)
  have "0 \<notin> addrs cs"
    using seg_allocated [OF assms(2), of 0] assms(1) by (force simp: mem_ok_def)
  then have "distinct (0 # map fst cs)"
    using chain_distinct [OF assms(2)] by auto
  then have "length (0 # map fst cs) \<le> brk m"
    by (rule distinct_bounded_length) (use sub in auto)
  then show ?thesis by simp
qed

lemma chain_length_fuel: "mem_ok m \<Longrightarrow> chain m p cs \<Longrightarrow> length cs < loop_fuel m"
  using chain_length [of m p cs] by (simp add: loop_fuel_def)

lemma chain_hd: "chain m p cs \<Longrightarrow> p = (if cs = [] then 0 else fst (hd cs))"
  by (cases cs) auto

text \<open>Redirecting the last cell of a path.\<close>

lemma seg_redirect:
  assumes "seg m p (cs @ [(a, d)]) q" and "a \<notin> addrs cs"
    and "heap m' a = Some (ListCell \<lparr>cdata = d', cnext = q'\<rparr>)"
    and "\<And>b. b \<in> addrs cs \<Longrightarrow> heap m' b = heap m b"
  shows "seg m' p (cs @ [(a, d')]) q'"
proof -
  obtain r where r: "seg m p cs r" "seg m r [(a, d)] q"
    using assms(1) by (auto simp: seg_append)
  then have "r = a" "a \<noteq> 0" by auto
  moreover have "seg m' p cs r"
    using r(1) assms(4) seg_cong by metis
  ultimately show ?thesis
    using assms(3) by (auto simp: seg_append)
qed

subsection \<open>Representations\<close>

lemma list_rep_NIL [simp]: "list_rep m 0 tag cs \<longleftrightarrow> cs = []"
  by (simp add: list_rep_def)

lemma owns_NIL [simp]: "owns m 0 tag vs F \<longleftrightarrow> vs = [] \<and> F = {}"
  by (auto simp: owns_def footprint_def)

lemma owns_Nil_iff: "owns m l tag [] F \<longleftrightarrow> l = 0 \<and> F = {}"
  by (auto simp: owns_def list_rep_def footprint_def)

lemma footprint_NIL [simp]: "footprint 0 cs = {}"
  by (simp add: footprint_def)

lemma list_rep_allocated:
  assumes "list_rep m l tag cs" and "a \<in> footprint l cs"
  shows "heap m a \<noteq> None"
  using assms by (auto simp: list_rep_def footprint_def split: if_splits dest: seg_allocated)

lemma list_rep_hdr_not_cell: "list_rep m l tag cs \<Longrightarrow> l \<noteq> 0 \<Longrightarrow> l \<notin> addrs cs"
  by (auto simp: list_rep_def dest: seg_allocated)

lemma list_rep_cong:
  "(\<And>a. a \<in> footprint l cs \<Longrightarrow> heap m' a = heap m a) \<Longrightarrow> list_rep m' l tag cs = list_rep m l tag cs"
  using seg_cong [of cs m' m "fst (hd cs)" 0] by (auto simp: list_rep_def footprint_def)

lemma list_rep_frame:
  assumes "list_rep m l tag cs" and "mem_ok m" and "agree A m m'" and "footprint l cs \<inter> A = {}"
  shows "list_rep m' l tag cs"
proof -
  have "heap m' a = heap m a" if "a \<in> footprint l cs" for a
    using that assms list_rep_allocated [OF assms(1) that] mem_ok_brk [OF assms(2)]
    by (auto simp: agree_def)
  then show ?thesis
    using assms(1) list_rep_cong by metis
qed

lemma owns_frame:
  "owns m l tag vs F \<Longrightarrow> mem_ok m \<Longrightarrow> agree A m m' \<Longrightarrow> F \<inter> A = {} \<Longrightarrow> owns m' l tag vs F"
  unfolding owns_def using list_rep_frame by metis

lemma owns_below:
  assumes "owns m l tag vs F" and "mem_ok m"
  shows "F \<subseteq> {a. a < brk m}"
  using assms list_rep_allocated mem_ok_brk unfolding owns_def by fastforce

lemma list_rep_load:
  assumes "list_rep m l tag cs" and "l \<noteq> 0"
  shows "load_list m l = Inr \<lparr>ltype = tag, llength = int (length cs), lhead = fst (hd cs), ltail = fst (last cs)\<rparr>"
  using assms by (simp add: list_rep_def load_list_def)

lemma list_head_rep: "list_rep m l tag cs \<Longrightarrow> list_head m l = Inr (if cs = [] then 0 else fst (hd cs))"
  by (cases "l = 0") (auto simp: list_head_def list_rep_load list_rep_def)

lemma list_length_rep: "list_rep m l tag cs \<Longrightarrow> list_length m l = Inr (int (length cs))"
  by (cases "l = 0") (auto simp: list_length_def list_rep_load list_rep_def)

lemma list_rep_chain: "list_rep m l tag cs \<Longrightarrow> chain m (if cs = [] then 0 else fst (hd cs)) cs"
  by (auto simp: list_rep_def split: if_splits)

end
