(* ===== verification/Pg_List_Spec.thy ===== *)
theory Pg_List_Spec
  imports Pg_List_Rep
begin

section \<open>The operations of \<open>list.c\<close> implement their counterparts on HOL lists\<close>

text \<open>
  One lemma per operation: on a represented list the operation succeeds, its result represents the
  HOL list the documentation of \<open>list.c\<close> names (append, concatenation, prefix, filter, union),
  and memory outside the operands is unchanged.
\<close>

lemma mem_ok_heap_brk [simp]: "mem_ok m \<Longrightarrow> heap m (brk m) = None"
  by (simp add: mem_ok_def)

lemma list_rep_snocE:
  assumes "list_rep m l tag cs" and "l \<noteq> 0"
  obtains bs t d where "cs = bs @ [(t, d)]" and "t \<noteq> 0" and "t \<notin> addrs bs" and "l \<noteq> t"
    and "heap m t = Some (ListCell \<lparr>cdata = d, cnext = 0\<rparr>)"
    and "heap m l = Some (ListHdr \<lparr>ltype = tag, llength = int (length bs) + 1,
            lhead = fst (hd (bs @ [(t, d)])), ltail = t\<rparr>)"
    and "chain m (fst (hd (bs @ [(t, d)]))) (bs @ [(t, d)])"
proof -
  have "cs \<noteq> []" using assms by (simp add: list_rep_def)
  then obtain bs t d where cs: "cs = bs @ [(t, d)]"
    by (metis append_butlast_last_id surj_pair)
  have ch: "chain m (fst (hd cs)) cs"
    using assms by (simp add: list_rep_def)
  have "t \<notin> addrs bs"
    using chain_distinct [OF ch] cs by auto
  moreover have "t \<noteq> 0" "heap m t = Some (ListCell \<lparr>cdata = d, cnext = 0\<rparr>)"
    using ch cs by (auto simp: seg_append)
  moreover have "l \<noteq> t"
    using list_rep_hdr_not_cell [OF assms] cs by auto
  ultimately show thesis
    using that [OF cs] assms ch cs by (simp add: list_rep_def add.commute)
qed

subsection \<open>Appending and prepending one element\<close>

lemma lappend_with_NIL:
  assumes "mem_ok m"
  shows "\<exists>l' m'. lappend_with tag m 0 v = Inr (l', m') \<and> mem_ok m' \<and> agree {} m m' \<and>
           list_rep m' l' tag [(brk m, v)] \<and> brk m \<le> l'"
  using assms
  by (auto simp: lappend_with_def new_list_def palloc_def load_list_def set_data_def load_cell_def
      store_cell_def list_rep_def mem_ok_def agree_def)

lemma lappend_with_cons:
  assumes ok: "mem_ok m" and rep: "list_rep m l tag cs" and "l \<noteq> 0"
  shows "\<exists>m'. lappend_with tag' m l v = Inr (l, m') \<and> mem_ok m' \<and> agree {l, fst (last cs)} m m' \<and>
           list_rep m' l tag (cs @ [(brk m, v)])"
proof -
  from rep \<open>l \<noteq> 0\<close> obtain bs t d where cs: "cs = bs @ [(t, d)]"
    and nt: "t \<noteq> 0" "t \<notin> addrs bs" "l \<noteq> t"
    and ht: "heap m t = Some (ListCell \<lparr>cdata = d, cnext = 0\<rparr>)"
    and hl: "heap m l = Some (ListHdr \<lparr>ltype = tag, llength = int (length bs) + 1,
            lhead = fst (hd (bs @ [(t, d)])), ltail = t\<rparr>)"
    and ch: "chain m (fst (hd (bs @ [(t, d)]))) (bs @ [(t, d)])"
    by (rule list_rep_snocE)
  have lt: "l < brk m" "t < brk m" "0 < brk m"
    using mem_ok_allocated [OF ok ht] mem_ok_allocated [OF ok hl] by auto
  have bs: "a < brk m \<and> a \<noteq> l" if "a \<in> addrs bs" for a
    using seg_allocated [OF ch, of a] that mem_ok_allocated [OF ok] hl by fastforce
  define m' where "m' = m\<lparr>brk := Suc (brk m), heap := (heap m)(t \<mapsto> ListCell \<lparr>cdata = d, cnext = brk m\<rparr>,
      l \<mapsto> ListHdr \<lparr>ltype = tag, llength = 2 + int (length bs),
            lhead = fst (hd (bs @ [(t, d)])), ltail = brk m\<rparr>,
      brk m \<mapsto> ListCell \<lparr>cdata = v, cnext = 0\<rparr>)\<rparr>"
  have "lappend_with tag' m l v = Inr (l, m')"
    using \<open>l \<noteq> 0\<close> nt ht hl lt
    by (simp add: lappend_with_def new_tail_cell_def palloc_def load_list_def set_next_def
        set_data_def load_cell_def store_cell_def store_list_def m'_def)
  moreover have "mem_ok m'"
    using ok lt nt \<open>l \<noteq> 0\<close> by (auto simp: mem_ok_def m'_def)
  moreover have "agree {l, fst (last cs)} m m'"
    by (auto simp: agree_def m'_def cs)
  moreover have "list_rep m' l tag (cs @ [(brk m, v)])"
  proof -
    have upd: "heap m' b = heap m b" if "b \<in> addrs bs" for b
      using bs [OF that] that nt(2) by (auto simp: m'_def simp del: image_iff)
    have "heap m' t = Some (ListCell \<lparr>cdata = d, cnext = brk m\<rparr>)"
      using nt lt by (simp add: m'_def)
    with ch nt(2) have "seg m' (fst (hd (bs @ [(t, d)]))) (bs @ [(t, d)]) (brk m)"
      using upd by (rule seg_redirect)
    then have "chain m' (fst (hd (bs @ [(t, d)]))) ((bs @ [(t, d)]) @ [(brk m, v)])"
      using lt by (subst seg_append) (auto simp: m'_def)
    then show ?thesis
      using \<open>l \<noteq> 0\<close> cs lt by (cases bs) (auto simp: list_rep_def m'_def)
  qed
  ultimately show ?thesis by blast
qed

lemma yieldsI [rep_intros]:
  "r = Inr (l', m') \<Longrightarrow> mem_ok m' \<Longrightarrow> agree F m m' \<Longrightarrow> list_rep m' l' tag cs \<Longrightarrow> map snd cs = vs \<Longrightarrow>
   footprint l' cs \<subseteq> F \<union> {a. brk m \<le> a} \<Longrightarrow> yields m F tag vs r"
  unfolding yields_def owns_def by blast

lemma yieldsE:
  assumes "yields m F tag vs r"
  obtains l' m' cs where "r = Inr (l', m')" and "mem_ok m'" and "agree F m m'"
    and "list_rep m' l' tag cs" and "map snd cs = vs" and "footprint l' cs \<subseteq> F \<union> {a. brk m \<le> a}"
  using assms unfolding yields_def owns_def by blast

lemma lappend_with_yields:
  assumes "mem_ok m" and rep: "list_rep m l tag cs"
  shows "yields m (footprint l cs) tag (map snd cs @ [v]) (lappend_with tag m l v)"
proof (cases "l = 0")
  case True
  from lappend_with_NIL [OF assms(1), of tag v] obtain l' m' where
    m': "lappend_with tag m 0 v = Inr (l', m')" "mem_ok m'" "agree {} m m'"
      "list_rep m' l' tag [(brk m, v)]" "brk m \<le> l'"
    by blast
  show ?thesis
    by (rule yieldsI [of _ l' m' _ _ _ "[(brk m, v)]"])
      (use m' rep True in \<open>simp_all add: footprint_def\<close>)
next
  case False
  from lappend_with_cons [OF assms(1) rep False, of tag v] obtain m' where
    m': "lappend_with tag m l v = Inr (l, m')" "mem_ok m'" "agree {l, fst (last cs)} m m'"
      "list_rep m' l tag (cs @ [(brk m, v)])"
    by blast
  have "cs \<noteq> []" using rep False by (simp add: list_rep_def)
  then have "{l, fst (last cs)} \<subseteq> footprint l cs"
    using False by (simp add: footprint_def)
  with m'(3) have "agree (footprint l cs) m m'" by (rule agree_mono)
  then show ?thesis
    by (rule yieldsI [OF m'(1,2) _ m'(4)]) (auto simp: footprint_def)
qed

subsection \<open>Concatenation shares cells\<close>

lemma list_concat_rep:
  assumes ok: "mem_ok m" and rep1: "list_rep m l1 tag cs1" and rep2: "list_rep m l2 tag2 cs2"
    and ne: "l1 \<noteq> 0" "l2 \<noteq> 0" "l1 \<noteq> l2" and disj: "addrs cs1 \<inter> addrs cs2 = {}"
  shows "\<exists>m'. list_concat m l1 l2 = Inr (l1, m') \<and> mem_ok m' \<and> agree {l1, fst (last cs1)} m m' \<and>
           brk m' = brk m \<and> list_rep m' l1 tag (cs1 @ cs2) \<and> list_rep m' l2 tag2 cs2"
proof -
  from rep1 ne(1) obtain bs t d where cs1: "cs1 = bs @ [(t, d)]"
    and nt: "t \<noteq> 0" "t \<notin> addrs bs" "l1 \<noteq> t"
    and ht: "heap m t = Some (ListCell \<lparr>cdata = d, cnext = 0\<rparr>)"
    and hl: "heap m l1 = Some (ListHdr \<lparr>ltype = tag, llength = int (length bs) + 1,
            lhead = fst (hd (bs @ [(t, d)])), ltail = t\<rparr>)"
    and ch: "chain m (fst (hd (bs @ [(t, d)]))) (bs @ [(t, d)])"
    by (rule list_rep_snocE)
  have ne2: "cs2 \<noteq> []" and ch2: "chain m (fst (hd cs2)) cs2"
    using rep2 ne(2) by (simp_all add: list_rep_def)
  define m' where "m' = m\<lparr>heap := (heap m)(t \<mapsto> ListCell \<lparr>cdata = d, cnext = fst (hd cs2)\<rparr>,
      l1 \<mapsto> ListHdr \<lparr>ltype = tag, llength = int (length bs) + 1 + int (length cs2),
            lhead = fst (hd (bs @ [(t, d)])), ltail = fst (last cs2)\<rparr>)\<rparr>"
  have call: "list_concat m l1 l2 = Inr (l1, m')"
    using ne nt ht list_rep_load [OF rep1 ne(1)] list_rep_load [OF rep2 ne(2)]
    by (simp add: list_concat_def set_next_def load_cell_def store_cell_def store_list_def m'_def cs1 ac_simps)
  have out: "heap m' a = heap m a" if "a \<noteq> t" "a \<noteq> l1" for a
    using that by (simp add: m'_def)
  have c1: "a \<noteq> t \<and> a \<noteq> l1" if "a \<in> addrs bs" for a
    using that nt(2) seg_allocated [OF ch, of a] hl by auto
  have c2: "a \<noteq> t \<and> a \<noteq> l1" if "a \<in> addrs cs2" for a
    using that disj cs1 seg_allocated [OF ch2 that] hl by auto
  have "seg m' (fst (hd (bs @ [(t, d)]))) (bs @ [(t, d)]) (fst (hd cs2))"
    by (rule seg_redirect [OF ch nt(2)]) (use nt c1 out in \<open>simp_all add: m'_def\<close>)
  moreover have ch2': "chain m' (fst (hd cs2)) cs2"
    using ch2 c2 out seg_cong [of cs2 m' m] by blast
  ultimately have "chain m' (fst (hd (cs1 @ cs2))) (cs1 @ cs2)"
    unfolding cs1 by (subst seg_append) (cases bs; auto)
  then have "list_rep m' l1 tag (cs1 @ cs2)"
    using ne ne2 cs1 by (cases bs) (simp_all add: list_rep_def m'_def ac_simps)
  moreover have "l2 \<noteq> t"
    using ht rep2 ne(2) by (auto simp: list_rep_def)
  then have "list_rep m' l2 tag2 cs2"
    using rep2 ne ch2' out [of l2] by (simp add: list_rep_def)
  moreover have "mem_ok m'"
    using ok mem_ok_allocated [OF ok ht] mem_ok_allocated [OF ok hl] by (auto simp: mem_ok_def m'_def)
  moreover have "agree {l1, fst (last cs1)} m m'"
    by (auto simp: agree_def m'_def cs1)
  moreover have "brk m' = brk m" by (simp add: m'_def)
  ultimately show ?thesis using call by blast
qed

lemma list_concat_yields:
  assumes ok: "mem_ok m" and rep1: "list_rep m l1 tag cs1" and rep2: "list_rep m l2 tag cs2"
    and disj: "footprint l1 cs1 \<inter> footprint l2 cs2 = {}"
  shows "yields m (footprint l1 cs1 \<union> footprint l2 cs2) tag (map snd cs1 @ map snd cs2) (list_concat m l1 l2)"
proof (cases "l1 = 0 \<or> l2 = 0")
  case True
  then show ?thesis
    using assms by (auto simp: list_concat_def intro!: yieldsI)
next
  case False
  then have "l1 \<noteq> l2" "addrs cs1 \<inter> addrs cs2 = {}"
    using disj by (auto simp: footprint_def)
  with False list_concat_rep [OF ok rep1 rep2] obtain m' where
    m': "list_concat m l1 l2 = Inr (l1, m')" "mem_ok m'" "agree {l1, fst (last cs1)} m m'"
      "list_rep m' l1 tag (cs1 @ cs2)"
    by blast
  have "cs1 \<noteq> []" using rep1 False by (simp add: list_rep_def)
  then have "{l1, fst (last cs1)} \<subseteq> footprint l1 cs1 \<union> footprint l2 cs2"
    using False by (simp add: footprint_def)
  with m'(3) have "agree (footprint l1 cs1 \<union> footprint l2 cs2) m m'" by (rule agree_mono)
  then show ?thesis
    by (rule yieldsI [OF m'(1,2) _ m'(4)]) (use False in \<open>auto simp: footprint_def\<close>)
qed

subsection \<open>Element access\<close>

lemma nth_loop_seg:
  "seg m p cs q \<Longrightarrow> nth_loop (length cs) m p = Inr q"
  by (induction cs arbitrary: p) (auto simp: load_cell_def)

lemma nth_loop_beyond: "chain m p cs \<Longrightarrow> length cs < n \<Longrightarrow> nth_loop n m p = Inl Segv"
proof (induction cs arbitrary: p n)
  case Nil
  then show ?case by (cases n) auto
next
  case (Cons c cs)
  then show ?case by (cases n; cases c) (auto simp: load_cell_def)
qed

lemma list_nth_cell_rep:
  assumes rep: "list_rep m l tag cs" and n: "0 \<le> n" "n < int (length cs)"
  shows "list_nth_cell m l n = Inr (fst (cs ! nat n))"
proof -
  have "l \<noteq> 0" and ch: "chain m (fst (hd cs)) cs" and ne: "cs \<noteq> []"
    using assms by (auto simp: list_rep_def split: if_splits)
  show ?thesis
  proof (cases "n = int (length cs) - 1")
    case True
    then have "nat n = length cs - 1" by simp
    with True show ?thesis
      using list_rep_load [OF rep \<open>l \<noteq> 0\<close>] ne by (simp add: list_nth_cell_def last_conv_nth)
  next
    case False
    have k: "nat n < length cs" using n by simp
    have "cs = take (nat n) cs @ (cs ! nat n) # drop (Suc (nat n)) cs"
      using k by (rule id_take_nth_drop)
    then obtain r where "seg m (fst (hd cs)) (take (nat n) cs) r"
      and "seg m r ((cs ! nat n) # drop (Suc (nat n)) cs) 0"
      using ch seg_append [of m "fst (hd cs)" "take (nat n) cs"] by metis
    moreover from this(2) have "r = fst (cs ! nat n)"
      by (cases "cs ! nat n") simp
    moreover have "length (take (nat n) cs) = nat n" using k by simp
    ultimately have "nth_loop (nat n) m (fst (hd cs)) = Inr (fst (cs ! nat n))"
      using nth_loop_seg by metis
    with False show ?thesis
      using list_rep_load [OF rep \<open>l \<noteq> 0\<close>] by (simp add: list_nth_cell_def)
  qed
qed

lemma seg_load: "seg m p cs q \<Longrightarrow> (a, d) \<in> set cs \<Longrightarrow> a \<noteq> 0 \<and> (\<exists>n. heap m a = Some (ListCell \<lparr>cdata = d, cnext = n\<rparr>))"
proof (induction cs arbitrary: p)
  case (Cons c cs)
  then show ?case by (cases c) auto
qed simp

lemma list_nth_rep:
  assumes rep: "list_rep m l tag cs" and n: "0 \<le> n" "n < int (length cs)"
  shows "list_nth m l n = as_ptr (snd (cs ! nat n))"
    and "list_nth_int m l n = as_int (snd (cs ! nat n))"
    and "list_nth_oid m l n = as_oid (snd (cs ! nat n))"
proof -
  have "nat n < length cs" using n by simp
  then have mem: "(fst (cs ! nat n), snd (cs ! nat n)) \<in> set cs" by simp
  have "chain m (fst (hd cs)) cs"
    using rep n by (auto simp: list_rep_def split: if_splits)
  from seg_load [OF this mem] show
    "list_nth m l n = as_ptr (snd (cs ! nat n))"
    "list_nth_int m l n = as_int (snd (cs ! nat n))"
    "list_nth_oid m l n = as_oid (snd (cs ! nat n))"
    using list_nth_cell_rep [OF assms]
    by (auto simp: list_nth_def list_nth_int_def list_nth_oid_def lfirst_def lfirst_int_def
        lfirst_oid_def load_cell_def)
qed

text \<open>
  Without assertions a negative index reads the head of a list, and an index at or past the length
  dereferences the null pointer that ends the chain.
\<close>

lemma list_nth_out_of_range:
  assumes rep: "list_rep m l tag cs" and "l \<noteq> 0"
  shows "n < 0 \<Longrightarrow> list_nth m l n = as_ptr (snd (hd cs))"
    and "int (length cs) \<le> n \<Longrightarrow> list_nth m l n = Inl Segv"
proof -
  have ne: "cs \<noteq> []" and ch: "chain m (fst (hd cs)) cs"
    using assms by (simp_all add: list_rep_def)
  note ld = list_rep_load [OF rep \<open>l \<noteq> 0\<close>]
  show "list_nth m l n = as_ptr (snd (hd cs))" if "n < 0"
  proof -
    have "(fst (hd cs), snd (hd cs)) \<in> set cs" using ne by simp
    from seg_load [OF ch this] show ?thesis
      using that ld ne by (auto simp: list_nth_def list_nth_cell_def lfirst_def load_cell_def)
  qed
  show "list_nth m l n = Inl Segv" if "int (length cs) \<le> n"
  proof (cases "nat n = length cs")
    case True
    then have "nth_loop (nat n) m (fst (hd cs)) = Inr 0"
      using nth_loop_seg [OF ch] by simp
    with that ld show ?thesis
      by (simp add: list_nth_def list_nth_cell_def lfirst_def)
  next
    case False
    then have "length cs < nat n" using that by linarith
    from nth_loop_beyond [OF ch this] that ld show ?thesis
      by (simp add: list_nth_def list_nth_cell_def)
  qed
qed

subsection \<open>Membership\<close>

lemma member_loop_chain:
  assumes "chain m p cs" and "length cs < fuel" and "\<And>d. d \<in> snd ` set cs \<Longrightarrow> test d = Inr (T d)"
  shows "member_loop fuel m test p = Inr (\<exists>d \<in> snd ` set cs. T d)"
  using assms
proof (induction cs arbitrary: p fuel)
  case Nil
  then show ?case by (cases fuel) auto
next
  case (Cons c cs)
  obtain a d where c: "c = (a, d)" by (cases c)
  obtain f where f: "fuel = Suc f" using Cons.prems(2) by (cases fuel) auto
  obtain n where n: "p = a" "a \<noteq> 0" "heap m a = Some (ListCell \<lparr>cdata = d, cnext = n\<rparr>)" "chain m n cs"
    using Cons.prems(1) c by auto
  have "member_loop f m test n = Inr (\<exists>d \<in> snd ` set cs. T d)"
    using Cons.prems f n by (intro Cons.IH) auto
  moreover have "test d = Inr (T d)" using Cons.prems(3) c by auto
  ultimately show ?case using c f n by (simp add: load_cell_def)
qed

lemma list_member_with_rep:
  assumes "mem_ok m" and "list_rep m l tag cs" and "\<And>d. d \<in> snd ` set cs \<Longrightarrow> test d = Inr (T d)"
  shows "list_member_with m test l = Inr (\<exists>d \<in> snd ` set cs. T d)"
  using list_head_rep [OF assms(2)] member_loop_chain [OF list_rep_chain [OF assms(2)] _ assms(3)]
    chain_length_fuel [OF assms(1) list_rep_chain [OF assms(2)]]
  by (simp add: list_member_with_def)

lemma list_member_int_rep:
  assumes "mem_ok m" and "list_rep m l tag cs" and "map snd cs = map IntV is"
  shows "list_member_int m l i = Inr (i \<in> set is)"
proof -
  have im: "snd ` set cs = IntV ` set is"
    using arg_cong [OF assms(3), of set] by simp
  have "list_member_int m l i = Inr (\<exists>d \<in> snd ` set cs. d = IntV i)"
    unfolding list_member_int_def
    by (rule list_member_with_rep [OF assms(1,2)]) (auto simp: im)
  then show ?thesis by (auto simp: im)
qed

lemma list_member_ptr_rep:
  assumes "mem_ok m" and "list_rep m l tag cs" and "map snd cs = map Ptr ps"
  shows "list_member_ptr m l p = Inr (p \<in> set ps)"
proof -
  have im: "snd ` set cs = Ptr ` set ps"
    using arg_cong [OF assms(3), of set] by simp
  have "list_member_ptr m l p = Inr (\<exists>d \<in> snd ` set cs. d = Ptr p)"
    unfolding list_member_ptr_def
    by (rule list_member_with_rep [OF assms(1,2)]) (auto simp: im)
  then show ?thesis by (auto simp: im)
qed

subsection \<open>Copies\<close>

lemma copy_loop_chain:
  assumes "mem_ok m" and "chain m cur cs" and "heap m prev = Some (ListCell \<lparr>cdata = d, cnext = 0\<rparr>)"
    and "prev \<noteq> 0" and "prev \<notin> addrs cs" and "length cs < fuel"
  shows "\<exists>m' ds. copy_loop fuel m prev cur = Inr (fst (last ((prev, d) # ds)), m') \<and> mem_ok m' \<and>
           agree {prev} m m' \<and> chain m' prev ((prev, d) # ds) \<and> map snd ds = map snd cs \<and>
           addrs ds \<subseteq> {a. brk m \<le> a}"
  using assms
proof (induction cs arbitrary: m cur prev d fuel)
  case Nil
  then show ?case by (cases fuel) auto
next
  case (Cons c cs)
  obtain a x where c: "c = (a, x)" by (cases c)
  obtain f where f: "fuel = Suc f" using Cons.prems(6) by (cases fuel) auto
  obtain n where n: "cur = a" "a \<noteq> 0" "heap m a = Some (ListCell \<lparr>cdata = x, cnext = n\<rparr>)" "chain m n cs"
    using Cons.prems(2) c by auto
  have lt: "prev < brk m" "0 < brk m"
    using mem_ok_allocated [OF Cons.prems(1,3)] by auto
  have old: "b < brk m \<and> b \<noteq> prev" if "b \<in> addrs cs" for b
    using seg_allocated [OF n(4) that] mem_ok_allocated [OF Cons.prems(1)] Cons.prems(5) c that by fastforce
  define m2 where "m2 = m\<lparr>brk := Suc (brk m), heap := (heap m)(brk m \<mapsto> ListCell \<lparr>cdata = x, cnext = 0\<rparr>,
      prev \<mapsto> ListCell \<lparr>cdata = d, cnext = brk m\<rparr>)\<rparr>"
  have step: "copy_loop fuel m prev cur = copy_loop f m2 (brk m) n"
    using n f lt Cons.prems(3,4)
    by (simp add: load_cell_def palloc_def set_next_def store_cell_def m2_def)
  have ok2: "mem_ok m2" using Cons.prems(1,4) lt by (auto simp: mem_ok_def m2_def)
  have ch2: "chain m2 n cs"
    using n(4) old seg_cong [of cs m2 m n 0] by (fastforce simp: m2_def)
  have "\<exists>m' ds. copy_loop f m2 (brk m) n = Inr (fst (last ((brk m, x) # ds)), m') \<and> mem_ok m' \<and>
           agree {brk m} m2 m' \<and> chain m' (brk m) ((brk m, x) # ds) \<and> map snd ds = map snd cs \<and>
           addrs ds \<subseteq> {a. brk m2 \<le> a}"
    by (rule Cons.IH [OF ok2 ch2]) (use lt old Cons.prems(6) f in \<open>auto simp: m2_def\<close>)
  then obtain m' ds where
    ih: "copy_loop f m2 (brk m) n = Inr (fst (last ((brk m, x) # ds)), m')" "mem_ok m'"
      "agree {brk m} m2 m'" "chain m' (brk m) ((brk m, x) # ds)" "map snd ds = map snd cs"
      "addrs ds \<subseteq> {a. brk m2 \<le> a}"
    by blast
  have "heap m' prev = Some (ListCell \<lparr>cdata = d, cnext = brk m\<rparr>)"
    using ih(3) lt by (simp add: agree_def m2_def)
  then have "chain m' prev ((prev, d) # (brk m, x) # ds)"
    using ih(4) Cons.prems(4) by simp
  moreover have "agree {prev} m m2" by (auto simp: agree_def m2_def)
  then have "agree {prev} m m'"
    by (rule agree_trans_new [OF _ ih(3)]) auto
  moreover have "addrs ((brk m, x) # ds) \<subseteq> {a. brk m \<le> a}"
    using ih(6) by (auto simp: m2_def)
  ultimately show ?case
    using step ih c by (intro exI [of _ m'] exI [of _ "(brk m, x) # ds"]) auto
qed

lemma copy_from_yields:
  assumes ok: "mem_ok m" and ch: "chain m cur cs" and ne: "cs \<noteq> []"
  shows "yields m {} tag (map snd cs) (copy_from m tag (int (length cs)) cur)"
proof -
  obtain a d rest where cs: "cs = (a, d) # rest" using ne by (cases cs) auto
  obtain n where n: "cur = a" "a \<noteq> 0" "heap m a = Some (ListCell \<lparr>cdata = d, cnext = n\<rparr>)" "chain m n rest"
    using ch cs by auto
  define hd1 where "hd1 = brk m"
  define l1 where "l1 = Suc (brk m)"
  define nh where "nh = \<lparr>ltype = tag, llength = 1, lhead = hd1, ltail = hd1\<rparr>"
  define m1 where "m1 = m\<lparr>brk := Suc (Suc (brk m)), heap := (heap m)(l1 \<mapsto> ListHdr nh,
      hd1 \<mapsto> ListCell \<lparr>cdata = d, cnext = 0\<rparr>)\<rparr>"
  have pos: "0 < brk m" using ok by (simp add: mem_ok_def)
  have start: "copy_from m tag (int (length cs)) cur =
      bnd (copy_loop (loop_fuel m1) m1 hd1 n) (\<lambda>(prev, m).
      bnd (set_next m prev 0) (\<lambda>m.
      Inr (l1, store_list m l1 (nh\<lparr>llength := int (length cs), ltail := prev\<rparr>))))"
    using n pos
    by (simp add: copy_from_def load_cell_def new_list_def palloc_def load_list_def set_data_def
        store_cell_def m1_def hd1_def l1_def nh_def)
  have ok1: "mem_ok m1" using ok pos by (auto simp: mem_ok_def m1_def l1_def hd1_def)
  have old: "b < brk m" if "b \<in> addrs rest" for b
    using seg_allocated [OF n(4) that] mem_ok_allocated [OF ok] by fastforce
  then have ch1: "chain m1 n rest"
    using n(4) seg_cong [of rest m1 m n 0] by (fastforce simp: m1_def l1_def hd1_def)
  have h1: "heap m1 hd1 = Some (ListCell \<lparr>cdata = d, cnext = 0\<rparr>)" by (simp add: m1_def)
  have "hd1 \<notin> addrs rest" "hd1 \<noteq> 0" using old pos by (auto simp: hd1_def)
  from copy_loop_chain [OF ok1 ch1 h1 this(2,1) chain_length_fuel [OF ok1 ch1]]
  obtain m2 ds where m2: "copy_loop (loop_fuel m1) m1 hd1 n = Inr (fst (last ((hd1, d) # ds)), m2)"
      "mem_ok m2" "agree {hd1} m1 m2" "chain m2 hd1 ((hd1, d) # ds)" "map snd ds = map snd rest"
      "addrs ds \<subseteq> {a. brk m1 \<le> a}"
    by blast
  define t where "t = last ((hd1, d) # ds)"
  have tin: "t \<in> set ((hd1, d) # ds)" by (simp add: t_def)
  obtain bs where bs: "(hd1, d) # ds = bs @ [t]"
    by (metis append_butlast_last_id list.distinct(1) t_def)
  then have ht: "fst t \<noteq> 0" "heap m2 (fst t) = Some (ListCell \<lparr>cdata = snd t, cnext = 0\<rparr>)"
    using m2(4) seg_append [of m2 hd1 bs "[t]" 0] by (cases t; force)+
  have hl: "heap m2 l1 = Some (ListHdr nh)"
    using m2(3) by (simp add: agree_def m1_def l1_def hd1_def)
  define m3 where "m3 = store_list m2 l1 (nh\<lparr>llength := int (length cs), ltail := fst t\<rparr>)"
  have noop: "store_cell m2 (fst t) \<lparr>cdata = snd t, cnext = 0\<rparr> = m2"
    using ht(2) by (simp add: store_cell_def fun_upd_idem)
  have res: "copy_from m tag (int (length cs)) cur = Inr (l1, m3)"
    unfolding start m2(1) t_def [symmetric] using ht noop by (simp add: set_next_def load_cell_def m3_def)
  have nl: "l1 \<notin> addrs ((hd1, d) # ds)"
    using seg_allocated [OF m2(4), of l1] hl by auto
  have "heap m3 b = heap m2 b" if "b \<in> addrs ((hd1, d) # ds)" for b
    using that nl by (auto simp: m3_def)
  then have "chain m3 hd1 ((hd1, d) # ds)"
    using m2(4) seg_cong [of "(hd1, d) # ds" m3 m2 hd1 0] by blast
  moreover have "length ds = length rest" using m2(5) by (metis length_map)
  ultimately have "list_rep m3 l1 tag ((hd1, d) # ds)"
    using cs by (simp add: list_rep_def m3_def nh_def t_def l1_def)
  moreover have "mem_ok m3" unfolding m3_def by (rule mem_ok_store(2) [OF m2(2) hl])
  moreover have "agree {} m m3"
    using m2(3) by (auto simp: agree_def m3_def m1_def l1_def hd1_def)
  moreover have "footprint l1 ((hd1, d) # ds) \<subseteq> {} \<union> {a. brk m \<le> a}"
    using m2(6) by (auto simp: footprint_def m1_def l1_def hd1_def)
  ultimately show ?thesis
    using res m2(5) cs by (intro yieldsI [of _ l1 m3]) auto
qed

lemma list_copy_yields:
  assumes "mem_ok m" and "list_rep m l tag cs"
  shows "yields m {} tag (map snd cs) (list_copy m l)"
proof (cases "l = 0")
  case True
  then show ?thesis using assms by (auto simp: list_copy_def intro!: yieldsI)
next
  case False
  then have "cs \<noteq> []" "chain m (fst (hd cs)) cs"
    using assms(2) by (simp_all add: list_rep_def)
  with copy_from_yields [OF assms(1)] list_rep_load [OF assms(2) False] False show ?thesis
    by (simp add: list_copy_def)
qed

end
