(* ===== verification/Pg_List_Sets.thy ===== *)
theory Pg_List_Sets
  imports Pg_List_Spec
begin

section \<open>The set operations of \<open>list.c\<close>\<close>

text \<open>
  Union, intersection, difference and the append-if-absent operations share one loop, \<open>collect\<close>.
  Its specification \<open>collected\<close> is proved once, for any decision \<open>keep\<close> that computes a function
  of the values collected so far and the current value; the operations are instances of it.
\<close>

fun collected :: "('a list \<Rightarrow> 'a \<Rightarrow> bool) \<Rightarrow> 'a list \<Rightarrow> 'a list \<Rightarrow> 'a list" where
  "collected K acc [] = acc"
| "collected K acc (d # ds) = collected K (if K acc d then acc @ [d] else acc) ds"

lemma collected_filter: "collected (\<lambda>_. P) acc ds = acc @ filter P ds"
  by (induction ds arbitrary: acc) auto

lemma collected_add_new: "collected (\<lambda>acc d. d \<notin> set acc) acc ds = add_new (=) acc ds"
  by (induction ds arbitrary: acc) auto

lemma collected_map:
  "inj f \<Longrightarrow> collected (\<lambda>acc d. d \<notin> set acc) (map f acc) (map f ds) = map f (add_new (=) acc ds)"
proof (induction ds arbitrary: acc)
  case Nil
  then show ?case by simp
next
  case (Cons d ds)
  have "(f d \<in> f ` set acc) = (d \<in> set acc)"
    using Cons.prems by (simp add: inj_image_mem_iff)
  then show ?case
    using Cons.IH [OF Cons.prems, of acc] Cons.IH [OF Cons.prems, of "acc @ [d]"] by auto
qed

lemma agree_load_cell:
  assumes "heap m0 a = Some (ListCell c)" and "mem_ok m0" and "agree F m0 m" and "a \<notin> F"
  shows "load_cell m a = Inr c"
  using agree_heap [OF assms(3,2,1,4)] mem_ok_allocated [OF assms(2,1)] by (simp add: load_cell_iff)

text \<open>
  The chain is read in the memory \<open>m0\<close> the loop started in; \<open>F\<close> is what the loop may overwrite.
\<close>

lemma collect_loop_yields:
  assumes ok0: "mem_ok m0" and ch: "chain m0 cell cs" and dis: "addrs cs \<inter> F = {}"
    and keep: "\<And>m res rs d. mem_ok m \<Longrightarrow> agree F m0 m \<Longrightarrow> list_rep m res tag rs \<Longrightarrow> d \<in> snd ` set cs \<Longrightarrow>
                 set (map snd rs) \<subseteq> V \<union> snd ` set cs \<Longrightarrow> keep m res d = Inr (K (map snd rs) d)"
    and ok: "mem_ok m" and ag: "agree F m0 m" and rep: "list_rep m res tag rs"
    and fp: "footprint res rs \<subseteq> F \<union> {a. brk m0 \<le> a}" and fuel: "length cs < fuel"
    and vals: "snd ` set rs \<subseteq> V"
  shows "yields m0 F tag (collected K (map snd rs) (map snd cs)) (collect_loop fuel keep tag m res cell)"
  using ch dis keep ok ag rep fp fuel vals
proof (induction cs arbitrary: cell fuel m res rs V)
  case Nil
  then show ?case by (cases fuel) (auto intro: yieldsI)
next
  case (Cons c cs)
  obtain a d where c: "c = (a, d)" by (cases c)
  obtain f where f: "fuel = Suc f" using Cons.prems(8) by (cases fuel) auto
  have na: "a \<notin> F" using Cons.prems(2) c by auto
  obtain n where n: "cell = a" "a \<noteq> 0" "heap m0 a = Some (ListCell \<lparr>cdata = d, cnext = n\<rparr>)" "chain m0 n cs"
    using Cons.prems(1) c by auto
  note l = agree_load_cell [OF n(3) ok0 _ na]
  have k: "keep m res d = Inr (K (map snd rs) d)"
    by (rule Cons.prems(3) [OF Cons.prems(4-6)]) (use c Cons.prems(9) in auto)
  have keep': "keep m1 res1 d1 = Inr (K (map snd rs1) d1)"
    if "mem_ok m1" "agree F m0 m1" "list_rep m1 res1 tag rs1" "d1 \<in> snd ` set cs"
      "set (map snd rs1) \<subseteq> insert d V \<union> snd ` set cs" for m1 res1 rs1 d1
    by (rule Cons.prems(3) [OF that(1-3)]) (use that(4,5) c in auto)
  have dis': "addrs cs \<inter> F = {}" "length cs < f" using Cons.prems(2,8) f by auto
  show ?case
  proof (cases "K (map snd rs) d")
    case False
    have "yields m0 F tag (collected K (map snd rs) (map snd cs)) (collect_loop f keep tag m res n)"
      by (rule Cons.IH [where V = "insert d V", OF n(4) dis'(1) keep' Cons.prems(4-7) dis'(2)]) (use Cons.prems(9) in auto)
    then show ?thesis using False c f n(1,2) k l [OF Cons.prems(5)] by simp
  next
    case True
    from lappend_with_yields [OF Cons.prems(4,6), of d] obtain res' m' rs' where
      r: "lappend_with tag m res d = Inr (res', m')" "mem_ok m'" "agree (footprint res rs) m m'"
        "list_rep m' res' tag rs'" "map snd rs' = map snd rs @ [d]"
        "footprint res' rs' \<subseteq> footprint res rs \<union> {a. brk m \<le> a}"
      by (rule yieldsE)
    have ag': "agree F m0 m'" using agree_trans_new [OF Cons.prems(5) r(3) Cons.prems(7)] .
    have fp': "footprint res' rs' \<subseteq> F \<union> {a. brk m0 \<le> a}"
      using r(6) Cons.prems(5,7) by (auto simp: agree_def)
    have "snd ` set rs' = insert d (snd ` set rs)"
      using arg_cong [OF r(5), of set] by auto
    then have "yields m0 F tag (collected K (map snd rs') (map snd cs)) (collect_loop f keep tag m' res' n)"
      by (intro Cons.IH [where V = "insert d V", OF n(4) dis'(1) keep' r(2) ag' r(4) fp' dis'(2)]) (use Cons.prems(9) in auto)
    then show ?thesis using True c f n(1,2) k r(1,5) l [OF Cons.prems(5)] l [OF ag'] by simp
  qed
qed

lemma collect_yields:
  assumes "mem_ok m" and rep: "list_rep m res tag rs" and src: "list_rep m l tag' cs"
    and dis: "addrs cs \<inter> footprint res rs = {}"
    and keep: "\<And>m' res' rs' d. mem_ok m' \<Longrightarrow> agree (footprint res rs) m m' \<Longrightarrow> list_rep m' res' tag rs' \<Longrightarrow>
                 d \<in> snd ` set cs \<Longrightarrow> set (map snd rs') \<subseteq> snd ` set rs \<union> snd ` set cs \<Longrightarrow>
                 keep m' res' d = Inr (K (map snd rs') d)"
  shows "yields m (footprint res rs) tag (collected K (map snd rs) (map snd cs)) (collect keep tag m res l)"
proof -
  have "yields m (footprint res rs) tag (collected K (map snd rs) (map snd cs))
          (collect_loop (loop_fuel m) keep tag m res (if cs = [] then 0 else fst (hd cs)))"
    by (rule collect_loop_yields [where V = "snd ` set rs" and K = K and keep = keep, OF assms(1) list_rep_chain [OF src] dis keep
          assms(1) agree_refl rep _ chain_length_fuel [OF assms(1) list_rep_chain [OF src]]]) simp_all
  then show ?thesis
    using list_head_rep [OF src] by (simp add: collect_def)
qed

lemma yields_trans:
  assumes "mem_ok m" and "agree F m m'" and "footprint l' cs' \<subseteq> F \<union> {a. brk m \<le> a}"
    and "yields m' (footprint l' cs') tag vs r"
  shows "yields m F tag vs r"
proof -
  from assms(4) obtain l'' m'' cs where r: "r = Inr (l'', m'')" "mem_ok m''" "agree (footprint l' cs') m' m''"
    "list_rep m'' l'' tag cs" "map snd cs = vs" "footprint l'' cs \<subseteq> footprint l' cs' \<union> {a. brk m' \<le> a}"
    by (rule yieldsE)
  have "footprint l'' cs \<subseteq> F \<union> {a. brk m \<le> a}"
    using r(6) assms(2,3) by (auto simp: agree_def)
  with r agree_trans_new [OF assms(2) r(3) assms(3)] show ?thesis
    by (intro yieldsI)
qed

subsection \<open>The interface of a kind of list\<close>

text \<open>
  \<open>list.c\<close> has every set operation once per kind of list: pointers, integers and Oids. What the
  kinds have in common is a way to store an element in a cell and a membership test; the behaviour
  of the set operations follows from that alone.
\<close>

locale list_kind =
  fixes emb :: "'a \<Rightarrow> lval"
    and member :: "'o mem \<Rightarrow> nat \<Rightarrow> lval \<Rightarrow> bool res"
  assumes inj_emb: "inj emb"
    and member_law: "mem_ok m \<Longrightarrow> list_rep m l tag cs \<Longrightarrow> map snd cs = map emb vs \<Longrightarrow>
                     member m l (emb x) = Inr (x \<in> set vs)"
begin

lemma member_value:
  assumes "mem_ok m" and "list_rep m l tag cs" and "snd ` set cs \<subseteq> range emb"
  shows "member m l (emb x) = Inr (emb x \<in> snd ` set cs)"
proof -
  define vs where "vs = map (inv emb \<circ> snd) cs"
  have vs: "map snd cs = map emb vs"
    unfolding vs_def using assms(3) by (auto simp: f_inv_into_f)
  have "snd ` set cs = emb ` set vs"
    using arg_cong [OF vs, of set] by simp
  with member_law [OF assms(1,2) vs, of x] show ?thesis
    by (simp add: inj_image_mem_iff [OF inj_emb])
qed

lemma concat_unique_yields:
  assumes "mem_ok m" and rs: "list_rep m l1 tag rs" "map snd rs = map emb us"
    and cs: "list_rep m l2 tag' cs" "map snd cs = map emb vs" and dis: "addrs cs \<inter> footprint l1 rs = {}"
  shows "yields m (footprint l1 rs) tag (map emb (add_new (=) us vs)) (collect (not_in member) tag m l1 l2)"
proof -
  have im: "snd ` set rs = emb ` set us" "snd ` set cs = emb ` set vs"
    using arg_cong [OF rs(2), of set] arg_cong [OF cs(2), of set] by simp_all
  have "yields m (footprint l1 rs) tag (collected (\<lambda>acc d. d \<notin> set acc) (map snd rs) (map snd cs))
          (collect (not_in member) tag m l1 l2)"
  proof (rule collect_yields [OF assms(1) rs(1) cs(1) dis])
    fix m' :: "'o mem" and res' rs' d
    assume a: "mem_ok m'" "list_rep m' res' tag rs'" "d \<in> snd ` set cs"
      "set (map snd rs') \<subseteq> snd ` set rs \<union> snd ` set cs"
    from a(3) obtain x where "d = emb x" using im by auto
    moreover have "snd ` set rs' \<subseteq> range emb" using a(4) im by auto
    ultimately show "not_in member m' res' d = Inr (d \<notin> set (map snd rs'))"
      using member_value [OF a(1,2)] by (simp add: not_in_def)
  qed
  then show ?thesis using collected_map [OF inj_emb, of us vs] rs(2) cs(2) by simp
qed

lemma union_yields:
  assumes "mem_ok m" and rs: "list_rep m l1 tag rs" "map snd rs = map emb us"
    and cs: "list_rep m l2 tag' cs" "map snd cs = map emb vs"
  shows "yields m {} tag (map emb (add_new (=) us vs))
           (bnd (list_copy m l1) (\<lambda>(result, m). collect (not_in member) tag m result l2))"
proof -
  from list_copy_yields [OF assms(1) rs(1)] obtain l' m' rs' where
    r: "list_copy m l1 = Inr (l', m')" "mem_ok m'" "agree {} m m'" "list_rep m' l' tag rs'"
      "map snd rs' = map snd rs" "footprint l' rs' \<subseteq> {} \<union> {a. brk m \<le> a}"
    by (rule yieldsE)
  have c': "list_rep m' l2 tag' cs" using list_rep_frame [OF cs(1) assms(1) r(3)] by simp
  have "addrs cs \<subseteq> {a. a < brk m}"
    using seg_allocated [OF list_rep_chain [OF cs(1)]] mem_ok_allocated [OF assms(1)] by fastforce
  with r(6) have "addrs cs \<inter> footprint l' rs' = {}" by fastforce
  from concat_unique_yields [OF r(2,4) _ c' cs(2) this] r(5) rs(2)
  have "yields m' (footprint l' rs') tag (map emb (add_new (=) us vs)) (collect (not_in member) tag m' l' l2)"
    by simp
  from yields_trans [OF assms(1) r(3,6) this] show ?thesis using r(1) by simp
qed

text \<open>Filtering one list by membership in another, in either sense.\<close>

lemma filter_yields:
  assumes "mem_ok m" and rs: "list_rep m l1 tag' rs" "map snd rs = map emb us"
    and cs: "list_rep m l2 tag'' cs" "map snd cs = map emb vs"
  shows "yields m {} tag (map emb (filter (\<lambda>x. x \<in> set vs) us)) (collect (\<lambda>m _. member m l2) tag m 0 l1)"
    and "yields m {} tag (map emb (filter (\<lambda>x. x \<notin> set vs) us)) (collect (\<lambda>m _. not_in member m l2) tag m 0 l1)"
proof -
  have im: "snd ` set rs = emb ` set us"
    using arg_cong [OF rs(2), of set] by simp
  have law: "member m' l2 d = Inr (inv emb d \<in> set vs)"
    if "mem_ok m'" "agree {} m m'" "d \<in> snd ` set rs" for m' d
  proof -
    have "list_rep m' l2 tag'' cs" using list_rep_frame [OF cs(1) assms(1) that(2)] by simp
    from member_law [OF that(1) this cs(2), of "inv emb d"] that(3) im show ?thesis
      by (auto simp: inv_f_f [OF inj_emb])
  qed
  have g: "yields m {} tag (collected (\<lambda>_ d. P (inv emb d \<in> set vs)) [] (map snd rs))
          (collect (\<lambda>m _ d. bnd (member m l2 d) (\<lambda>b. Inr (P b))) tag m 0 l1)" for P
    using collect_yields [where K = "\<lambda>_ d. P (inv emb d \<in> set vs)" and res = 0 and rs = "[]" and tag = tag
        and keep = "\<lambda>m _ d. bnd (member m l2 d) (\<lambda>b. Inr (P b))", OF assms(1) _ rs(1)] law by simp
  have f: "collected (\<lambda>_ d. P (inv emb d \<in> set vs)) [] (map snd rs) =
           map emb (filter (\<lambda>x. P (x \<in> set vs)) us)" for P
    by (simp add: collected_filter rs(2) filter_map comp_def inv_f_f [OF inj_emb])
  show "yields m {} tag (map emb (filter (\<lambda>x. x \<in> set vs) us)) (collect (\<lambda>m _. member m l2) tag m 0 l1)"
    using g [of "\<lambda>b. b"] unfolding f [of "\<lambda>b. b"] bnd_Inr_right .
  show "yields m {} tag (map emb (filter (\<lambda>x. x \<notin> set vs) us)) (collect (\<lambda>m _. not_in member m l2) tag m 0 l1)"
    using g [of Not] unfolding f [of Not] not_in_def [abs_def] .
qed

end

lemma list_member_oid_rep:
  assumes "mem_ok m" and "list_rep m l tag cs" and "map snd cs = map OidV is"
  shows "list_member_oid m l i = Inr (i \<in> set is)"
proof -
  have im: "snd ` set cs = OidV ` set is"
    using arg_cong [OF assms(3), of set] by simp
  have "list_member_oid m l i = Inr (\<exists>d \<in> snd ` set cs. d = OidV i)"
    unfolding list_member_oid_def
    by (rule list_member_with_rep [OF assms(1,2)]) (auto simp: im)
  then show ?thesis by (auto simp: im)
qed

interpretation ints: list_kind IntV mem_int
  by unfold_locales (simp add: inj_def, unfold mem_int_def as_int.simps bnd_Inr, rule list_member_int_rep)

interpretation ptrs: list_kind Ptr mem_ptr
  by unfold_locales (simp add: inj_def, unfold mem_ptr_def as_ptr.simps bnd_Inr, rule list_member_ptr_rep)

interpretation oids: list_kind OidV mem_oid
  by unfold_locales (simp add: inj_def, unfold mem_oid_def as_oid.simps bnd_Inr, rule list_member_oid_rep)

end
