(* ===== verification/Pg_Nodes.thy ===== *)
theory Pg_Nodes
  imports Infed_Prelude
begin

section \<open>Parse-tree nodes\<close>

text \<open>
  The nodes of \<open>primnodes.h\<close> and \<open>parsenodes.h\<close> as a datatype. \<open>Null\<close> is the null pointer. A
  field of type \<open>List *\<close> that holds nodes is a HOL list, the empty list being \<open>NIL\<close>; \<open>TList\<close> is
  such a list seen as a node (\<open>T_List\<close>), as when a list field is passed to a walker. The fields of
  a struct that neither the plug-in nor \<open>nodeFuncs.c\<close> reads are kept together in one block of type
  \<open>fields\<close>; the empty block is what \<open>makeNode\<close> leaves there, all zeros.

  Node types with one common shape share a constructor and are told apart by their tag:
  \<open>Leaf\<close> has no sub-nodes, \<open>ArgNode\<close> has one, \<open>ArgsNode\<close> has a list over which the walker
  iterates itself, and \<open>ElemsNode\<close> has a list that is handed to the walker as a node. \<open>Other\<close> is
  any node type that \<open>nodeFuncs.c\<close> does not know.

  In C a tree can be updated in place. Every such update is modelled by returning the updated tree;
  this is the same thing as long as the updated node is reached along one path only.
\<close>

type_synonym fields = "int list"

record pg_var =
  varno :: nat
  varattno :: int
  vartype :: nat
  vartypmod :: int
  varcollid :: nat
  varlevelsup :: nat
  varnoold :: nat
  varoattno :: int
  vlocation :: int

record pg_const =
  consttype :: nat
  consttypmod :: int
  constcollid :: nat
  constlen :: int
  constvalue :: int
  constisnull :: bool
  constbyval :: bool
  clocation :: int

datatype BoolExprType = AND_EXPR | OR_EXPR | NOT_EXPR

datatype NullTestType = IS_NULL | IS_NOT_NULL

datatype SubLinkType =
  EXISTS_SUBLINK | ALL_SUBLINK | ANY_SUBLINK | ROWCOMPARE_SUBLINK | EXPR_SUBLINK
| MULTIEXPR_SUBLINK | ARRAY_SUBLINK | CTE_SUBLINK

datatype RTEKind = RTE_RELATION | RTE_SUBQUERY | RTE_JOIN | RTE_FUNCTION | RTE_VALUES | RTE_CTE

datatype leaf_tag =
  T_Param | T_CoerceToDomainValue | T_CaseTestExpr | T_SetToDefault | T_CurrentOfExpr
| T_SortGroupClause

datatype arg_tag =
  T_WithCheckOption | T_NamedArgExpr | T_FieldSelect | T_RelabelType | T_CoerceViaIO
| T_ArrayCoerceExpr | T_ConvertRowtypeExpr | T_CollateExpr | T_BooleanTest | T_CoerceToDomain
| T_CommonTableExpr | T_PlaceHolderVar | T_InferenceElem | T_PlaceHolderInfo | T_RangeTblFunction

datatype args_tag =
  T_GroupingFunc | T_FuncExpr | T_DistinctExpr | T_NullIfExpr | T_ScalarArrayOpExpr | T_AppendRelInfo

datatype elems_tag =
  T_AlternativeSubPlan | T_ArrayExpr | T_RowExpr | T_CoalesceExpr | T_MinMaxExpr

datatype Alias = Alias (aliasname: string) (colnames: "string list")

text \<open>The fields of \<open>Query\<close> the plug-in assigns; \<open>qrest\<close> stands for the remaining ones.\<close>

record query_misc =
  commandType :: nat
  canSetTag :: bool
  hasAggs :: bool
  hasWindowFuncs :: bool
  hasSubLinks :: bool
  hasDistinctOn :: bool
  hasRecursive :: bool
  hasModifyingCTE :: bool
  hasForUpdate :: bool
  hasRowSecurity :: bool
  qrest :: fields

datatype node =
  Null
| Var pg_var
| Const pg_const
| RangeTblRef int
| Leaf leaf_tag fields
| ArgNode arg_tag fields node
| ArgsNode args_tag fields "node list"
| ElemsNode elems_tag fields "node list"
| Aggref fields "node list" "node list" "node list" "node list" node
| WindowFunc fields "node list" node
| ArrayRef fields "node list" "node list" node node
| OpExpr nat fields "node list"
| BoolExpr BoolExprType "node list" int
| SubLink SubLinkType fields node node
| SubPlan fields node "node list"
| FieldStore fields node "node list"
| CaseExpr fields node "node list" node
| CaseWhen fields node node
| RowCompareExpr fields "node list" "node list"
| XmlExpr fields "node list" "node list"
| NullTest NullTestType node bool int
| TargetEntry node int fields
| Query query_misc "node list" node "node list"
| WindowClause fields "node list" "node list" node node
| TList "node list"
| FromExpr "node list" node
| OnConflictExpr fields "node list" node "node list" node "node list"
| JoinExpr fields node node node
| SetOperationStmt fields node node
| TableSampleClause fields "node list" node
| RangeTblEntry RTEKind nat node "Alias option" "Alias option" fields
| Other nat

text \<open>A list field as a \<open>Node *\<close>, and a \<open>Node *\<close> cast back to \<open>List *\<close>.\<close>

fun list_node :: "node list \<Rightarrow> node" where
  "list_node [] = Null"
| "list_node (x # xs) = TList (x # xs)"

fun as_list :: "node \<Rightarrow> node list res" where
  "as_list Null = Inr []"
| "as_list (TList xs) = Inr xs"
| "as_list _ = Inl BadAccess"

lemma as_list_list_node [simp]: "as_list (list_node xs) = Inr xs"
  by (cases xs) simp_all

text \<open>
  \<open>list_nth\<close> of \<open>list.c\<close> on a list of nodes: the last cell is found through the \<open>tail\<close> pointer,
  any other index counts cells from the head, so that a negative index gives the head and an index
  past the end runs into the null pointer.
\<close>

definition lnth :: "'a list \<Rightarrow> int \<Rightarrow> 'a res" where
  "lnth xs n = (if nat n < length xs then Inr (xs ! nat n) else Inl Segv)"

subsection \<open>Conversions between \<open>int\<close> and \<open>Index\<close>\<close>

text \<open>
  \<open>Index\<close> is a 32-bit unsigned integer. A comparison of an \<open>Index\<close> with an \<open>int\<close> converts the
  \<open>int\<close> to unsigned; an assignment converts to the type of the target.
\<close>

definition index_of_int :: "int \<Rightarrow> nat" where
  "index_of_int i = nat (i mod 2 ^ 32)"

definition int_of_index :: "nat \<Rightarrow> int" where
  "int_of_index u = (if u < 2 ^ 31 then int u else int u - 2 ^ 32)"

definition index_eq :: "nat \<Rightarrow> int \<Rightarrow> bool" where
  "index_eq u i \<longleftrightarrow> u = index_of_int i"

lemma index_of_int_id: "0 \<le> i \<Longrightarrow> i < 2 ^ 32 \<Longrightarrow> index_of_int i = nat i"
  by (simp add: index_of_int_def)

lemma index_of_int_of_index: "u < 2 ^ 32 \<Longrightarrow> index_of_int (int_of_index u) = u"
  by (auto simp: index_of_int_def int_of_index_def mod_pos_pos_trivial)

lemma index_eq_int_of_index: "u < 2 ^ 32 \<Longrightarrow> v < 2 ^ 32 \<Longrightarrow> index_eq u (int_of_index v) \<longleftrightarrow> u = v"
  by (simp add: index_eq_def index_of_int_of_index)

subsection \<open>Constructors of \<open>makefuncs.c\<close> and zeroed nodes\<close>

definition zero_var :: pg_var where
  "zero_var = \<lparr>varno = 0, varattno = 0, vartype = 0, vartypmod = 0, varcollid = 0, varlevelsup = 0,
     varnoold = 0, varoattno = 0, vlocation = 0\<rparr>"

definition makeFromExpr :: "node list \<Rightarrow> node \<Rightarrow> node" where
  "makeFromExpr fromlist quals = FromExpr fromlist quals"

definition makeConst :: "nat \<Rightarrow> int \<Rightarrow> nat \<Rightarrow> int \<Rightarrow> int \<Rightarrow> bool \<Rightarrow> bool \<Rightarrow> node" where
  "makeConst typ typmod collid len val isnull byval =
     Const \<lparr>consttype = typ, consttypmod = typmod, constcollid = collid, constlen = len,
            constvalue = val, constisnull = isnull, constbyval = byval, clocation = -1\<rparr>"

definition makeBoolExpr :: "BoolExprType \<Rightarrow> node list \<Rightarrow> int \<Rightarrow> node" where
  "makeBoolExpr boolop args loc = BoolExpr boolop args loc"

definition makeAlias :: "string \<Rightarrow> string list \<Rightarrow> Alias" where
  "makeAlias name cols = Alias name cols"

definition zero_query :: query_misc where
  "zero_query = \<lparr>commandType = 0, canSetTag = False, hasAggs = False, hasWindowFuncs = False,
     hasSubLinks = False, hasDistinctOn = False, hasRecursive = False, hasModifyingCTE = False,
     hasForUpdate = False, hasRowSecurity = False, qrest = []\<rparr>"

subsection \<open>A measure on trees\<close>

text \<open>
  Every sub-node, and every list field seen as a node, weighs less than the node it belongs to. The
  operators \<open>>=\<close> (525) and \<open><=\<close> (523) weigh more than the pair of operators they are split into.
\<close>

primrec weight :: "node \<Rightarrow> nat" where
  "weight Null = 1"
| "weight (Var v) = 2"
| "weight (Const c) = 2"
| "weight (RangeTblRef i) = 2"
| "weight (Leaf t f) = 2"
| "weight (ArgNode t f a) = 2 + weight a"
| "weight (ArgsNode t f as) = 2 + sum_list (map weight as)"
| "weight (ElemsNode t f as) = 2 + sum_list (map weight as)"
| "weight (Aggref f as bs cs ds e) = 6 + sum_list (map weight as) + sum_list (map weight bs) +
     sum_list (map weight cs) + sum_list (map weight ds) + weight e"
| "weight (WindowFunc f as b) = 3 + sum_list (map weight as) + weight b"
| "weight (ArrayRef f as bs c d) = 4 + sum_list (map weight as) + sum_list (map weight bs) + weight c + weight d"
| "weight (OpExpr opno f as) =
     (if opno = 525 \<or> opno = 523 then 6 + 2 * sum_list (map weight as) else 2 + sum_list (map weight as))"
| "weight (BoolExpr b as l) = 2 + sum_list (map weight as)"
| "weight (SubLink t f a b) = 2 + weight a + weight b"
| "weight (SubPlan f a bs) = 3 + weight a + sum_list (map weight bs)"
| "weight (FieldStore f a bs) = 3 + weight a + sum_list (map weight bs)"
| "weight (CaseExpr f a bs c) = 3 + weight a + sum_list (map weight bs) + weight c"
| "weight (CaseWhen f a b) = 2 + weight a + weight b"
| "weight (RowCompareExpr f as bs) = 4 + sum_list (map weight as) + sum_list (map weight bs)"
| "weight (XmlExpr f as bs) = 4 + sum_list (map weight as) + sum_list (map weight bs)"
| "weight (NullTest t a r l) = 2 + weight a"
| "weight (TargetEntry a r f) = 2 + weight a"
| "weight (Query q rs j ts) = 5 + sum_list (map weight rs) + weight j + sum_list (map weight ts)"
| "weight (WindowClause f as bs c d) = 4 + sum_list (map weight as) + sum_list (map weight bs) + weight c + weight d"
| "weight (TList as) = 1 + sum_list (map weight as)"
| "weight (FromExpr as b) = 3 + sum_list (map weight as) + weight b"
| "weight (OnConflictExpr f as b cs d es) = 6 + sum_list (map weight as) + weight b +
     sum_list (map weight cs) + weight d + sum_list (map weight es)"
| "weight (JoinExpr f a b c) = 2 + weight a + weight b + weight c"
| "weight (SetOperationStmt f a b) = 2 + weight a + weight b"
| "weight (TableSampleClause f as b) = 3 + sum_list (map weight as) + weight b"
| "weight (RangeTblEntry k r q al er f) = 2 + weight q"
| "weight (Other t) = 2"

lemma weight_pos [simp]: "0 < weight n"
  by (cases n) simp_all

lemma weight_list_node [simp]: "weight (list_node xs) = 1 + sum_list (map weight xs)"
  by (cases xs) simp_all

lemma weight_elem: "x \<in> set xs \<Longrightarrow> weight x \<le> sum_list (map weight xs)"
  by (induction xs) auto

end
