(* ===== verification/Pg_NodeFuncs.thy ===== *)
theory Pg_NodeFuncs
  imports Pg_Nodes
begin

section \<open>Generic tree traversal of \<open>nodeFuncs.c\<close>\<close>

text \<open>
  \<open>expression_tree_walker\<close> calls a walker on the sub-nodes of a node, in order, until one call
  returns true; \<open>expression_tree_mutator\<close> rebuilds a node from the results of a mutator on its
  sub-nodes. Both take the callback and its context as arguments; here the context is a state that
  the callback returns updated. The congruence rules at the end say that only the sub-nodes of a
  node are handed to the callback, so a callback that calls the traversal again can be defined by
  recursion on the tree.
\<close>

type_synonym 's walker = "node \<Rightarrow> 's \<Rightarrow> (bool \<times> 's) res"
type_synonym 's mutator = "node \<Rightarrow> 's \<Rightarrow> (node \<times> 's) res"

abbreviation unrecognized :: cerr where
  "unrecognized \<equiv> Elog ''unrecognized node type''"

subsection \<open>Walking\<close>

text \<open>
  The sub-nodes in the order the walker is called on them. An entry \<open>Inl e\<close> marks the point at
  which the function fails instead of calling the walker. A list over which the function iterates
  itself contributes its elements, a list passed to the walker contributes one node.
\<close>

fun case_when_subnodes :: "node \<Rightarrow> node res list" where
  "case_when_subnodes Null = [Inl Segv]"
| "case_when_subnodes (CaseWhen f expr result) = [Inr expr, Inr result]"
| "case_when_subnodes _ = [Inl BadAccess]"

fun func_subnodes :: "node \<Rightarrow> node res list option" where
  "func_subnodes (Var v) = Some []"
| "func_subnodes (Const c) = Some []"
| "func_subnodes (RangeTblRef i) = Some []"
| "func_subnodes (Leaf t f) = Some []"
| "func_subnodes (Aggref f aggdirectargs args aggorder aggdistinct aggfilter) =
     Some (map Inr aggdirectargs @ map Inr args @ map Inr aggorder @ map Inr aggdistinct @ [Inr aggfilter])"
| "func_subnodes (WindowFunc f args aggfilter) = Some (map Inr args @ [Inr aggfilter])"
| "func_subnodes (ArrayRef f upper lower refexpr refassgnexpr) =
     Some (map Inr upper @ map Inr lower @ [Inr refexpr, Inr refassgnexpr])"
| "func_subnodes (OpExpr opno f args) = Some (map Inr args)"
| "func_subnodes (ArgsNode t f args) = Some (map Inr args)"
| "func_subnodes (BoolExpr b args l) = Some (map Inr args)"
| "func_subnodes _ = None"

fun expr_subnodes :: "node \<Rightarrow> node res list option" where
  "expr_subnodes (SubLink t f testexpr subselect) = Some [Inr testexpr, Inr subselect]"
| "expr_subnodes (SubPlan f testexpr args) = Some (Inr testexpr # map Inr args)"
| "expr_subnodes (FieldStore f arg newvals) = Some [Inr arg, Inr (list_node newvals)]"
| "expr_subnodes (ArgNode t f arg) = Some [Inr arg]"
| "expr_subnodes (CaseExpr f arg args defresult) =
     Some (Inr arg # concat (map case_when_subnodes args) @ [Inr defresult])"
| "expr_subnodes (ElemsNode t f elements) = Some [Inr (list_node elements)]"
| "expr_subnodes (RowCompareExpr f largs rargs) = Some [Inr (list_node largs), Inr (list_node rargs)]"
| "expr_subnodes (XmlExpr f named_args args) = Some [Inr (list_node named_args), Inr (list_node args)]"
| "expr_subnodes (NullTest t arg r l) = Some [Inr arg]"
| "expr_subnodes (TargetEntry expr r f) = Some [Inr expr]"
| "expr_subnodes _ = None"

fun clause_subnodes :: "node \<Rightarrow> node res list option" where
  "clause_subnodes (Query q rtable jointree targetList) = Some []"
| "clause_subnodes (WindowClause f partitionClause orderClause startOffset endOffset) =
     Some [Inr (list_node partitionClause), Inr (list_node orderClause), Inr startOffset, Inr endOffset]"
| "clause_subnodes (TList xs) = Some (map Inr xs)"
| "clause_subnodes (FromExpr fromlist quals) = Some [Inr (list_node fromlist), Inr quals]"
| "clause_subnodes (OnConflictExpr f arbiterElems arbiterWhere onConflictSet onConflictWhere exclRelTlist) =
     Some [Inr (list_node arbiterElems), Inr arbiterWhere, Inr (list_node onConflictSet),
           Inr onConflictWhere, Inr (list_node exclRelTlist)]"
| "clause_subnodes (JoinExpr f larg rarg quals) = Some [Inr larg, Inr rarg, Inr quals]"
| "clause_subnodes (SetOperationStmt f larg rarg) = Some [Inr larg, Inr rarg]"
| "clause_subnodes (TableSampleClause f args repeatable) = Some (map Inr args @ [Inr repeatable])"
| "clause_subnodes _ = None"

definition walk_subnodes :: "node \<Rightarrow> node res list" where
  "walk_subnodes n =
     (if n = Null then []
      else case func_subnodes n of Some ks \<Rightarrow> ks
      | None \<Rightarrow> (case expr_subnodes n of Some ks \<Rightarrow> ks
      | None \<Rightarrow> (case clause_subnodes n of Some ks \<Rightarrow> ks
      | None \<Rightarrow> [Inl unrecognized])))"

fun walk_list :: "'s walker \<Rightarrow> node res list \<Rightarrow> 's \<Rightarrow> (bool \<times> 's) res" where
  "walk_list walker [] s = Inr (False, s)"
| "walk_list walker (k # ks) s =
     bnd k (\<lambda>n. bnd (walker n s) (\<lambda>(b, s). if b then Inr (True, s) else walk_list walker ks s))"

definition expression_tree_walker :: "'s walker \<Rightarrow> node \<Rightarrow> 's \<Rightarrow> (bool \<times> 's) res" where
  "expression_tree_walker walker n s = walk_list walker (walk_subnodes n) s"

subsection \<open>Mutating\<close>

text \<open>The macro \<open>MUTATE\<close>, for a field that holds a node and for a field that holds a list.\<close>

definition mutate_list :: "'s mutator \<Rightarrow> node list \<Rightarrow> 's \<Rightarrow> (node list \<times> 's) res" where
  "mutate_list mutator xs s =
     bnd (mutator (list_node xs) s) (\<lambda>(n, s). bnd (as_list n) (\<lambda>ys. Inr (ys, s)))"

fun mutate_elems :: "'s mutator \<Rightarrow> node list \<Rightarrow> 's \<Rightarrow> (node list \<times> 's) res" where
  "mutate_elems mutator [] s = Inr ([], s)"
| "mutate_elems mutator (x # xs) s =
     bnd (mutator x s) (\<lambda>(y, s). bnd (mutate_elems mutator xs s) (\<lambda>(ys, s). Inr (y # ys, s)))"

fun mutate_func :: "'s mutator \<Rightarrow> node \<Rightarrow> 's \<Rightarrow> (node \<times> 's) res option" where
  "mutate_func mutator (Var v) s = Some (Inr (Var v, s))"
| "mutate_func mutator (Const c) s = Some (Inr (Const c, s))"
| "mutate_func mutator (RangeTblRef i) s = Some (Inr (RangeTblRef i, s))"
| "mutate_func mutator (Leaf t f) s = Some (Inr (Leaf t f, s))"
| "mutate_func mutator (Aggref f aggdirectargs args aggorder aggdistinct aggfilter) s = Some (
     bnd (mutate_list mutator aggdirectargs s) (\<lambda>(aggdirectargs, s).
     bnd (mutate_list mutator args s) (\<lambda>(args, s).
     bnd (mutate_list mutator aggorder s) (\<lambda>(aggorder, s).
     bnd (mutate_list mutator aggdistinct s) (\<lambda>(aggdistinct, s).
     bnd (mutator aggfilter s) (\<lambda>(aggfilter, s).
     Inr (Aggref f aggdirectargs args aggorder aggdistinct aggfilter, s)))))))"
| "mutate_func mutator (WindowFunc f args aggfilter) s = Some (
     bnd (mutate_list mutator args s) (\<lambda>(args, s).
     bnd (mutator aggfilter s) (\<lambda>(aggfilter, s).
     Inr (WindowFunc f args aggfilter, s))))"
| "mutate_func mutator (ArrayRef f upper lower refexpr refassgnexpr) s = Some (
     bnd (mutate_list mutator upper s) (\<lambda>(upper, s).
     bnd (mutate_list mutator lower s) (\<lambda>(lower, s).
     bnd (mutator refexpr s) (\<lambda>(refexpr, s).
     bnd (mutator refassgnexpr s) (\<lambda>(refassgnexpr, s).
     Inr (ArrayRef f upper lower refexpr refassgnexpr, s))))))"
| "mutate_func mutator (OpExpr opno f args) s = Some (
     bnd (mutate_list mutator args s) (\<lambda>(args, s). Inr (OpExpr opno f args, s)))"
| "mutate_func mutator (ArgsNode t f args) s = Some (
     bnd (mutate_list mutator args s) (\<lambda>(args, s). Inr (ArgsNode t f args, s)))"
| "mutate_func mutator (BoolExpr b args l) s = Some (
     bnd (mutate_list mutator args s) (\<lambda>(args, s). Inr (BoolExpr b args l, s)))"
| "mutate_func mutator _ s = None"

fun mutate_expr :: "'s mutator \<Rightarrow> node \<Rightarrow> 's \<Rightarrow> (node \<times> 's) res option" where
  "mutate_expr mutator (SubLink t f testexpr subselect) s = Some (
     bnd (mutator testexpr s) (\<lambda>(testexpr, s).
     bnd (mutator subselect s) (\<lambda>(subselect, s).
     Inr (SubLink t f testexpr subselect, s))))"
| "mutate_expr mutator (SubPlan f testexpr args) s = Some (
     bnd (mutator testexpr s) (\<lambda>(testexpr, s).
     bnd (mutate_list mutator args s) (\<lambda>(args, s).
     Inr (SubPlan f testexpr args, s))))"
| "mutate_expr mutator (FieldStore f arg newvals) s = Some (
     bnd (mutator arg s) (\<lambda>(arg, s).
     bnd (mutate_list mutator newvals s) (\<lambda>(newvals, s).
     Inr (FieldStore f arg newvals, s))))"
| "mutate_expr mutator (ArgNode t f arg) s = Some (
     bnd (mutator arg s) (\<lambda>(arg, s). Inr (ArgNode t f arg, s)))"
| "mutate_expr mutator (CaseExpr f arg args defresult) s = Some (
     bnd (mutator arg s) (\<lambda>(arg, s).
     bnd (mutate_list mutator args s) (\<lambda>(args, s).
     bnd (mutator defresult s) (\<lambda>(defresult, s).
     Inr (CaseExpr f arg args defresult, s)))))"
| "mutate_expr mutator (CaseWhen f expr result) s = Some (
     bnd (mutator expr s) (\<lambda>(expr, s).
     bnd (mutator result s) (\<lambda>(result, s).
     Inr (CaseWhen f expr result, s))))"
| "mutate_expr mutator (ElemsNode t f elements) s = Some (
     bnd (mutate_list mutator elements s) (\<lambda>(elements, s). Inr (ElemsNode t f elements, s)))"
| "mutate_expr mutator _ s = None"

fun mutate_test :: "'s mutator \<Rightarrow> node \<Rightarrow> 's \<Rightarrow> (node \<times> 's) res option" where
  "mutate_test mutator (RowCompareExpr f largs rargs) s = Some (
     bnd (mutate_list mutator largs s) (\<lambda>(largs, s).
     bnd (mutate_list mutator rargs s) (\<lambda>(rargs, s).
     Inr (RowCompareExpr f largs rargs, s))))"
| "mutate_test mutator (XmlExpr f named_args args) s = Some (
     bnd (mutate_list mutator named_args s) (\<lambda>(named_args, s).
     bnd (mutate_list mutator args s) (\<lambda>(args, s).
     Inr (XmlExpr f named_args args, s))))"
| "mutate_test mutator (NullTest t arg r l) s = Some (
     bnd (mutator arg s) (\<lambda>(arg, s). Inr (NullTest t arg r l, s)))"
| "mutate_test mutator (TargetEntry expr r f) s = Some (
     bnd (mutator expr s) (\<lambda>(expr, s). Inr (TargetEntry expr r f, s)))"
| "mutate_test mutator (Query q rtable jointree targetList) s = Some (Inr (Query q rtable jointree targetList, s))"
| "mutate_test mutator (WindowClause f partitionClause orderClause startOffset endOffset) s = Some (
     bnd (mutate_list mutator partitionClause s) (\<lambda>(partitionClause, s).
     bnd (mutate_list mutator orderClause s) (\<lambda>(orderClause, s).
     bnd (mutator startOffset s) (\<lambda>(startOffset, s).
     bnd (mutator endOffset s) (\<lambda>(endOffset, s).
     Inr (WindowClause f partitionClause orderClause startOffset endOffset, s))))))"
| "mutate_test mutator _ s = None"

fun mutate_clause :: "'s mutator \<Rightarrow> node \<Rightarrow> 's \<Rightarrow> (node \<times> 's) res option" where
  "mutate_clause mutator (TList xs) s = Some (
     bnd (mutate_elems mutator xs s) (\<lambda>(ys, s). Inr (list_node ys, s)))"
| "mutate_clause mutator (FromExpr fromlist quals) s = Some (
     bnd (mutate_list mutator fromlist s) (\<lambda>(fromlist, s).
     bnd (mutator quals s) (\<lambda>(quals, s).
     Inr (FromExpr fromlist quals, s))))"
| "mutate_clause mutator (OnConflictExpr f arbiterElems arbiterWhere onConflictSet onConflictWhere exclRelTlist) s = Some (
     bnd (mutate_list mutator arbiterElems s) (\<lambda>(arbiterElems, s).
     bnd (mutator arbiterWhere s) (\<lambda>(arbiterWhere, s).
     bnd (mutate_list mutator onConflictSet s) (\<lambda>(onConflictSet, s).
     bnd (mutator onConflictWhere s) (\<lambda>(onConflictWhere, s).
     bnd (mutate_list mutator exclRelTlist s) (\<lambda>(exclRelTlist, s).
     Inr (OnConflictExpr f arbiterElems arbiterWhere onConflictSet onConflictWhere exclRelTlist, s)))))))"
| "mutate_clause mutator (JoinExpr f larg rarg quals) s = Some (
     bnd (mutator larg s) (\<lambda>(larg, s).
     bnd (mutator rarg s) (\<lambda>(rarg, s).
     bnd (mutator quals s) (\<lambda>(quals, s).
     Inr (JoinExpr f larg rarg quals, s)))))"
| "mutate_clause mutator (SetOperationStmt f larg rarg) s = Some (
     bnd (mutator larg s) (\<lambda>(larg, s).
     bnd (mutator rarg s) (\<lambda>(rarg, s).
     Inr (SetOperationStmt f larg rarg, s))))"
| "mutate_clause mutator (TableSampleClause f args repeatable) s = Some (
     bnd (mutate_list mutator args s) (\<lambda>(args, s).
     bnd (mutator repeatable s) (\<lambda>(repeatable, s).
     Inr (TableSampleClause f args repeatable, s))))"
| "mutate_clause mutator _ s = None"

definition expression_tree_mutator :: "'s mutator \<Rightarrow> node \<Rightarrow> 's \<Rightarrow> (node \<times> 's) res" where
  "expression_tree_mutator mutator n s =
     (if n = Null then Inr (Null, s)
      else case mutate_func mutator n s of Some r \<Rightarrow> r
      | None \<Rightarrow> (case mutate_expr mutator n s of Some r \<Rightarrow> r
      | None \<Rightarrow> (case mutate_test mutator n s of Some r \<Rightarrow> r
      | None \<Rightarrow> (case mutate_clause mutator n s of Some r \<Rightarrow> r
      | None \<Rightarrow> Inl unrecognized))))"

subsection \<open>Only lighter nodes reach the callback\<close>

lemma case_when_weight: "Inr k \<in> set (case_when_subnodes n) \<Longrightarrow> weight k < weight n"
  by (cases n) auto

lemma walk_subnodes_weight: "Inr k \<in> set (walk_subnodes n) \<Longrightarrow> weight k < weight n"
  by (cases n) (force simp: walk_subnodes_def dest: weight_elem case_when_weight)+

lemma walk_list_cong:
  assumes "\<And>k s. Inr k \<in> set ks \<Longrightarrow> w k s = w' k s"
  shows "walk_list w ks s = walk_list w' ks s"
  using assms
proof (induction ks arbitrary: s)
  case Nil
  show ?case by simp
next
  case (Cons k ks)
  have tail: "walk_list w ks t = walk_list w' ks t" for t
    by (rule Cons.IH) (simp add: Cons.prems)
  have head: "k = Inr n \<Longrightarrow> w n s = w' n s" for n
    by (rule Cons.prems) simp
  show ?case
    by (cases k) (simp_all add: head tail cong: if_cong)
qed

lemma expression_tree_walker_cong [fundef_cong]:
  assumes "n = n'" and "s = s'" and "\<And>k t. weight k < weight n' \<Longrightarrow> w k t = w' k t"
  shows "expression_tree_walker w n s = expression_tree_walker w' n' s'"
  unfolding expression_tree_walker_def assms(1,2)
  by (rule walk_list_cong) (simp add: assms(3) walk_subnodes_weight)

lemma mutate_elems_cong:
  assumes "\<And>k s. k \<in> set xs \<Longrightarrow> f k s = g k s"
  shows "mutate_elems f xs s = mutate_elems g xs s"
  using assms by (induction xs arbitrary: s) simp_all

lemma mutate_list_cong:
  assumes "\<And>s. f (list_node xs) s = g (list_node xs) s"
  shows "mutate_list f xs s = mutate_list g xs s"
  by (simp add: mutate_list_def assms)

lemma mutate_clause_cong:
  assumes "\<And>k s. weight k < weight n \<Longrightarrow> f k s = g k s"
  shows "mutate_clause f n s = mutate_clause g n s"
proof (cases n)
  case (TList xs)
  have "mutate_elems f xs s = mutate_elems g xs s"
    by (rule mutate_elems_cong) (use assms TList weight_elem in fastforce)
  then show ?thesis using TList by simp
qed (use assms in \<open>simp_all add: mutate_list_def\<close>)

lemma expression_tree_mutator_cong [fundef_cong]:
  assumes "n = n'" and "s = s'" and fg: "\<And>k t. weight k < weight n' \<Longrightarrow> f k t = g k t"
  shows "expression_tree_mutator f n s = expression_tree_mutator g n' s'"
proof -
  have "mutate_func f n' s' = mutate_func g n' s'"
    by (cases n') (use fg in \<open>simp_all add: mutate_list_def\<close>)
  moreover have "mutate_expr f n' s' = mutate_expr g n' s'"
    by (cases n') (use fg in \<open>simp_all add: mutate_list_def\<close>)
  moreover have "mutate_test f n' s' = mutate_test g n' s'"
    by (cases n') (use fg in \<open>simp_all add: mutate_list_def\<close>)
  moreover have "mutate_clause f n' s' = mutate_clause g n' s'"
    by (rule mutate_clause_cong) (rule fg)
  ultimately show ?thesis
    unfolding expression_tree_mutator_def assms(1,2) by (simp only:)
qed

subsection \<open>List fields\<close>

text \<open>A mutator that does not look at lists treats a list field element by element.\<close>

lemma mutate_list_elems:
  assumes "\<And>s. f Null s = Inr (Null, s)"
    and "\<And>xs s. f (TList xs) s = expression_tree_mutator f (TList xs) s"
  shows "mutate_list f xs s = mutate_elems f xs s"
proof (cases xs)
  case Nil
  then show ?thesis by (simp add: mutate_list_def assms(1))
next
  case (Cons x xs')
  then show ?thesis
    by (cases "mutate_elems f xs s") (auto simp: mutate_list_def assms(2) expression_tree_mutator_def)
qed

lemma expression_tree_mutator_simps:
  "expression_tree_mutator f Null s = Inr (Null, s)"
  "expression_tree_mutator f (Var v) s = Inr (Var v, s)"
  "expression_tree_mutator f (Const k) s = Inr (Const k, s)"
  "expression_tree_mutator f (RangeTblRef i) s = Inr (RangeTblRef i, s)"
  "expression_tree_mutator f (OpExpr opno fs args) s =
     bnd (mutate_list f args s) (\<lambda>(args, s). Inr (OpExpr opno fs args, s))"
  "expression_tree_mutator f (BoolExpr b args l) s =
     bnd (mutate_list f args s) (\<lambda>(args, s). Inr (BoolExpr b args l, s))"
  "expression_tree_mutator f (NullTest t arg r l) s =
     bnd (f arg s) (\<lambda>(arg, s). Inr (NullTest t arg r l, s))"
  "expression_tree_mutator f (SubLink st fs testexpr subselect) s =
     bnd (f testexpr s) (\<lambda>(testexpr, s). bnd (f subselect s) (\<lambda>(subselect, s).
     Inr (SubLink st fs testexpr subselect, s)))"
  "expression_tree_mutator f (FromExpr fromlist quals) s =
     bnd (mutate_list f fromlist s) (\<lambda>(fromlist, s). bnd (f quals s) (\<lambda>(quals, s).
     Inr (FromExpr fromlist quals, s)))"
  "expression_tree_mutator f (TList xs) s = bnd (mutate_elems f xs s) (\<lambda>(ys, s). Inr (list_node ys, s))"
  "expression_tree_mutator f (Query q rt jt ts) s = Inr (Query q rt jt ts, s)"
  by (simp_all add: expression_tree_mutator_def)

lemma expression_tree_walker_simps:
  "expression_tree_walker w Null s = Inr (False, s)"
  "expression_tree_walker w (Var v) s = Inr (False, s)"
  "expression_tree_walker w (Const k) s = Inr (False, s)"
  "expression_tree_walker w (RangeTblRef i) s = Inr (False, s)"
  "expression_tree_walker w (OpExpr opno fs args) s = walk_list w (map Inr args) s"
  "expression_tree_walker w (BoolExpr b args l) s = walk_list w (map Inr args) s"
  "expression_tree_walker w (NullTest t arg r l) s = walk_list w [Inr arg] s"
  "expression_tree_walker w (SubLink st fs testexpr subselect) s = walk_list w [Inr testexpr, Inr subselect] s"
  "expression_tree_walker w (FromExpr fromlist quals) s = walk_list w [Inr (list_node fromlist), Inr quals] s"
  "expression_tree_walker w (TList xs) s = walk_list w (map Inr xs) s"
  "expression_tree_walker w (Query q rt jt ts) s = Inr (False, s)"
  by (simp_all add: expression_tree_walker_def walk_subnodes_def)

end
