(* ===== verification/True_Var.thy ===== *)
theory True_Var
  imports Pg_List_Sets Pg_NodeFuncs
begin

section \<open>Contexts and variable lists of \<open>true_var.c\<close>\<close>

text \<open>
  The first pass over a query (the walker) collects, for every relation of every range table, a list
  of \<open>Var\<close> objects that stand for its columns (\<open>trueVars\<close>), and for every Boolean connective the
  columns that are not null where the connective is true, or false. These lists live in the memory
  of \<open>Pg_Memory\<close>, because the code concatenates them destructively and keeps pointers to their
  parts; the objects in that memory are \<open>Var\<close>s. The two context structs of \<open>true_var.h\<close> are
  records whose \<open>List *\<close> fields are addresses.

  The system catalog, which the code reaches through \<open>SearchSysCache\<close>, is an argument: the number of
  columns of a relation and whether a column is declared not null, where the catalog has the tuple.
\<close>

type_synonym vmem = "pg_var mem"

record pg_catalog =
  rel_natts :: "nat \<Rightarrow> int option"
  att_notnull :: "nat \<Rightarrow> int \<Rightarrow> bool option"

record context_walker_set_constraint =
  wmem :: vmem
  trueVars :: nat
  current_trueVar :: nat
  list_of_not_null_att_schem :: nat
  list_of_not_null_in_op :: nat
  list_of_not_null_to_be_true :: nat
  list_of_not_null_to_be_false :: nat
  ready :: bool
  list_list_true :: nat
  list_list_false :: nat

record context_modifier =
  mmem :: vmem
  positive :: bool
  mready :: bool
  constraint_to_add :: "node list"
  mtrueVars :: nat
  mcurrent_trueVar :: nat
  list_of_not_null_in_current :: nat
  mlist_list_true :: nat
  mlist_list_false :: nat
  where_i_am :: int
  where_i_am_querry :: int

type_synonym wctx = context_walker_set_constraint
type_synonym mctx = context_modifier

definition make_context_walker_set_constraint :: "vmem \<Rightarrow> wctx" where
  "make_context_walker_set_constraint m =
     \<lparr>wmem = m, trueVars = 0, current_trueVar = 0, list_of_not_null_att_schem = 0,
      list_of_not_null_in_op = 0, list_of_not_null_to_be_true = 0, list_of_not_null_to_be_false = 0,
      ready = False, list_list_true = 0, list_list_false = 0\<rparr>"

definition make_context_modifier :: "bool \<Rightarrow> wctx \<Rightarrow> mctx res" where
  "make_context_modifier pos context =
     bnd (list_nth (wmem context) (trueVars context) 0) (\<lambda>cur.
     Inr \<lparr>mmem = wmem context, positive = pos, mready = False, constraint_to_add = [],
          mtrueVars = trueVars context, mcurrent_trueVar = cur,
          list_of_not_null_in_current = list_of_not_null_att_schem context,
          mlist_list_true = list_list_true context, mlist_list_false = list_list_false context,
          where_i_am = 0, where_i_am_querry = 0\<rparr>)"

definition free_if :: "vmem \<Rightarrow> nat \<Rightarrow> vmem res" where
  "free_if m l = (if l \<noteq> 0 then list_free_deep m l else Inr m)"

definition free_context_walker_set_constraint :: "wctx \<Rightarrow> vmem res" where
  "free_context_walker_set_constraint ctx =
     bnd (free_if (wmem ctx) (trueVars ctx)) (\<lambda>m.
     bnd (free_if m (current_trueVar ctx)) (\<lambda>m.
     bnd (free_if m (list_list_true ctx)) (\<lambda>m.
     free_if m (list_list_false ctx))))"

text \<open>
  The code also frees the list of pending constraints; these are nodes, which are values here, so that call
  has no counterpart.
\<close>

definition free_context_modifier :: "mctx \<Rightarrow> vmem res" where
  "free_context_modifier ctx = free_if (mmem ctx) (list_of_not_null_in_current ctx)"

definition get_pg_att_not_null :: "pg_catalog \<Rightarrow> nat \<Rightarrow> int \<Rightarrow> bool" where
  "get_pg_att_not_null cat relid attnum =
     (case att_notnull cat relid attnum of Some result \<Rightarrow> result | None \<Rightarrow> False)"

definition get_relnatts :: "pg_catalog \<Rightarrow> nat \<Rightarrow> int" where
  "get_relnatts cat relid = (case rel_natts cat relid of Some result \<Rightarrow> result | None \<Rightarrow> 0)"

subsection \<open>Variables and lists of variables\<close>

fun levels_up :: "nat \<Rightarrow> vmem \<Rightarrow> nat \<Rightarrow> nat res" where
  "levels_up 0 m temp = Inr temp"
| "levels_up (Suc i) m temp = bnd (list_nth m temp 0) (levels_up i m)"

definition getTrueVar :: "vmem \<Rightarrow> nat \<Rightarrow> pg_var \<Rightarrow> nat res" where
  "getTrueVar m current_trueVars v =
     bnd (levels_up (varlevelsup v) m current_trueVars) (\<lambda>temp.
     bnd (list_nth m temp (int_of_index (varno v))) (\<lambda>rel.
     list_nth m rel (varattno v - 1)))"

text \<open>The comparison \<open>t->varattno == v->varattno && t->vartype == v->vartype\<close> of two pointers.\<close>

definition same_attr :: "vmem \<Rightarrow> nat \<Rightarrow> nat \<Rightarrow> bool res" where
  "same_attr m t v =
     bnd (load_obj m t) (\<lambda>tv. bnd (load_obj m v) (\<lambda>vv.
     Inr (varattno tv = varattno vv \<and> vartype tv = vartype vv)))"

definition isInListTrueVar :: "vmem \<Rightarrow> nat \<Rightarrow> nat \<Rightarrow> bool res" where
  "isInListTrueVar m tvs v =
     (if tvs = 0 then Inr False
      else list_member_with m (\<lambda>d. bnd (as_ptr d) (\<lambda>t. same_attr m t v)) tvs)"

definition mem_attr :: "vmem \<Rightarrow> nat \<Rightarrow> lval \<Rightarrow> bool res" where
  "mem_attr m l d = bnd (as_ptr d) (isInListTrueVar m l)"

definition union_list :: "vmem \<Rightarrow> nat \<Rightarrow> (nat \<times> vmem) res" where
  "union_list m l = (if l = 0 then Inr (l, m) else collect (not_in mem_attr) T_List m 0 l)"

fun count_loop :: "nat \<Rightarrow> vmem \<Rightarrow> nat \<Rightarrow> nat \<Rightarrow> int \<Rightarrow> int res" where
  "count_loop 0 m v cell nb_in = Inl Loop"
| "count_loop (Suc fuel) m v cell nb_in =
     (if cell = 0 then Inr nb_in
      else bnd (load_cell m cell) (\<lambda>c.
           bnd (as_ptr (cdata c)) (\<lambda>t.
           bnd (same_attr m v t) (\<lambda>b.
           count_loop fuel m v (cnext c) (if b then nb_in + 1 else nb_in)))))"

definition inter_keep :: "nat \<Rightarrow> int \<Rightarrow> vmem \<Rightarrow> nat \<Rightarrow> lval \<Rightarrow> bool res" where
  "inter_keep l nb_arg m acc d =
     bnd (as_ptr d) (\<lambda>v.
     bnd (list_head m l) (\<lambda>cell.
     bnd (count_loop (loop_fuel m) m v cell 0) (\<lambda>nb_in.
     if nb_in = nb_arg then bnd (isInListTrueVar m acc v) (\<lambda>b. Inr (\<not> b)) else Inr False)))"

definition inter_list :: "vmem \<Rightarrow> nat \<Rightarrow> int \<Rightarrow> (nat \<times> vmem) res" where
  "inter_list m l nb_arg =
     (if l = 0 then Inr (l, m) else collect (inter_keep l nb_arg) T_List m 0 l)"

end
