(* ===== verification/Null_Walker.thy ===== *)
theory Null_Walker
  imports True_Var
begin

section \<open>The walkers of \<open>certain_answer_codd.c\<close> and \<open>certain_answer_marked.c\<close>\<close>

text \<open>
  The first pass. The two plug-ins have their own copy of \<open>my_walker\<close>; the parts the copies have in
  common (the connectives, variables, queries and relations) are one definition each, and the two
  walkers differ in the operators and in the range-table entries they look at.
\<close>

subsection \<open>Connectives\<close>

definition bool_enter :: "wctx \<Rightarrow> wctx" where
  "bool_enter context = context\<lparr>list_of_not_null_to_be_true := 0, list_of_not_null_to_be_false := 0\<rparr>"

text \<open>
  What follows the traversal of the arguments: \<open>save\<close> is the context the connective was entered
  with, \<open>context\<close> the one its arguments left.
\<close>

definition not_leave :: "wctx \<Rightarrow> wctx \<Rightarrow> wctx res" where
  "not_leave save context =
     (let l_true = list_of_not_null_to_be_true context;
          l_false = list_of_not_null_to_be_false context
      in bnd (list_concat (wmem context) (list_of_not_null_to_be_true save) l_false) (\<lambda>(t, m).
         bnd (list_concat m (list_of_not_null_to_be_false save) l_true) (\<lambda>(f, m).
         Inr (context\<lparr>wmem := m, list_of_not_null_to_be_true := t, list_of_not_null_to_be_false := f\<rparr>))))"

definition record_lists :: "wctx \<Rightarrow> wctx \<Rightarrow> nat \<Rightarrow> nat \<Rightarrow> vmem \<Rightarrow> wctx res" where
  "record_lists save context l_true l_false m =
     bnd (lappend m (list_list_true context) l_true) (\<lambda>(llt, m).
     bnd (lappend m (list_list_false context) l_false) (\<lambda>(llf, m).
     bnd (list_concat m (list_of_not_null_to_be_true save) l_true) (\<lambda>(t, m).
     bnd (list_concat m (list_of_not_null_to_be_false save) l_false) (\<lambda>(f, m).
     Inr (context\<lparr>wmem := m, list_list_true := llt, list_list_false := llf,
                   list_of_not_null_to_be_true := t, list_of_not_null_to_be_false := f\<rparr>)))))"

definition and_leave :: "wctx \<Rightarrow> int \<Rightarrow> wctx \<Rightarrow> wctx res" where
  "and_leave save nb_arg context =
     bnd (union_list (wmem context) (list_of_not_null_to_be_true context)) (\<lambda>(l_true, m).
     bnd (inter_list m (list_of_not_null_to_be_false context) nb_arg) (\<lambda>(l_false, m).
     record_lists save context l_true l_false m))"

definition or_leave :: "wctx \<Rightarrow> int \<Rightarrow> wctx \<Rightarrow> wctx res" where
  "or_leave save nb_arg context =
     bnd (inter_list (wmem context) (list_of_not_null_to_be_true context) nb_arg) (\<lambda>(l_true, m).
     bnd (union_list m (list_of_not_null_to_be_false context)) (\<lambda>(l_false, m).
     record_lists save context l_true l_false m))"

fun bool_leave :: "BoolExprType \<Rightarrow> wctx \<Rightarrow> int \<Rightarrow> wctx \<Rightarrow> wctx res" where
  "bool_leave NOT_EXPR save nb_arg context = not_leave save context"
| "bool_leave AND_EXPR save nb_arg context = and_leave save nb_arg context"
| "bool_leave OR_EXPR save nb_arg context = or_leave save nb_arg context"

subsection \<open>Variables and operators\<close>

definition var_step :: "pg_var \<Rightarrow> wctx \<Rightarrow> wctx res" where
  "var_step node context =
     bnd (getTrueVar (wmem context) (current_trueVar context) node) (\<lambda>v.
     bnd (isInListTrueVar (wmem context) (list_of_not_null_in_op context) v) (\<lambda>b.
     if b then Inr context
     else bnd (lappend (wmem context) (list_of_not_null_in_op context) v) (\<lambda>(l, m).
          Inr (context\<lparr>wmem := m, list_of_not_null_in_op := l\<rparr>))))"

definition op_enter :: "wctx \<Rightarrow> wctx" where
  "op_enter context = context\<lparr>ready := True, list_of_not_null_in_op := 0\<rparr>"

definition op_leave :: "wctx \<Rightarrow> wctx res" where
  "op_leave context =
     bnd (list_concat (wmem context) (list_of_not_null_to_be_true context) (list_of_not_null_in_op context))
       (\<lambda>(t, m). Inr (context\<lparr>wmem := m, list_of_not_null_to_be_true := t\<rparr>))"

subsection \<open>Queries and relations\<close>

definition query_enter :: "wctx \<Rightarrow> wctx res" where
  "query_enter context =
     bnd (lappend (wmem context) 0 (current_trueVar context)) (\<lambda>(l, m).
     Inr (context\<lparr>wmem := m, current_trueVar := l\<rparr>))"

definition query_push :: "wctx \<Rightarrow> wctx res" where
  "query_push context =
     bnd (lappend (wmem context) (trueVars context) (current_trueVar context)) (\<lambda>(l, m).
     Inr (context\<lparr>wmem := m, trueVars := l\<rparr>))"

fun columns_loop :: "pg_catalog \<Rightarrow> nat \<Rightarrow> int \<Rightarrow> nat \<Rightarrow> nat \<Rightarrow> wctx \<Rightarrow> (nat \<times> wctx) res" where
  "columns_loop cat relid i 0 relation context = Inr (relation, context)"
| "columns_loop cat relid i (Suc k) relation context =
     (let (v, m) = palloc (wmem context) (Obj (zero_var\<lparr>varattno := i, vartype := relid\<rparr>))
      in bnd (lappend m relation v) (\<lambda>(relation, m).
         bnd (if get_pg_att_not_null cat relid i
              then bnd (lappend m (list_of_not_null_att_schem context) v) (\<lambda>(l, m).
                   Inr (context\<lparr>wmem := m, list_of_not_null_att_schem := l\<rparr>))
              else Inr (context\<lparr>wmem := m\<rparr>)) (\<lambda>context.
         columns_loop cat relid (i + 1) k relation context)))"

text \<open>
  The loop counter is a 16-bit \<open>AttrNumber\<close>, so a relation with the greatest count it can hold
  would keep the loop running.
\<close>

definition relation_step :: "pg_catalog \<Rightarrow> nat \<Rightarrow> wctx \<Rightarrow> wctx res" where
  "relation_step cat relid context =
     (let number_col = get_relnatts cat relid
      in if number_col \<ge> 2 ^ 15 - 1 then Inl Loop
         else bnd (columns_loop cat relid 1 (nat number_col) 0 context) (\<lambda>(relation, context).
              bnd (lappend (wmem context) (current_trueVar context) relation) (\<lambda>(l, m).
              Inr (context\<lparr>wmem := m, current_trueVar := l\<rparr>))))"

fun subquery_rtable :: "node \<Rightarrow> node list res" where
  "subquery_rtable (Query q rtable jointree targetList) = Inr rtable"
| "subquery_rtable Null = Inl Segv"
| "subquery_rtable _ = Inl BadAccess"

lemma weight_subquery_rtable: "subquery_rtable n = Inr rt \<Longrightarrow> sum_list (map weight rt) < weight n"
  by (cases n rule: subquery_rtable.cases) auto

subsection \<open>The walkers\<close>

function codd_walker :: "pg_catalog \<Rightarrow> node \<Rightarrow> wctx \<Rightarrow> (bool \<times> wctx) res" where
  "codd_walker cat node context =
     (case node of
        Null \<Rightarrow> Inr (False, context)
      | BoolExpr boolop args l \<Rightarrow>
          if args = [] then Inl Segv
          else bnd (expression_tree_walker (codd_walker cat) node (bool_enter context)) (\<lambda>(retour, c).
               bnd (bool_leave boolop context (int (length args)) c) (\<lambda>c. Inr (retour, c)))
      | Var v \<Rightarrow>
          bnd (if ready context then var_step v context else Inr context)
            (\<lambda>c. expression_tree_walker (codd_walker cat) node c)
      | OpExpr opno f args \<Rightarrow>
          bnd (expression_tree_walker (codd_walker cat) node (op_enter context)) (\<lambda>(retour, c).
          bnd (op_leave c) (\<lambda>c. Inr (retour, c)))
      | Query q rtable jointree targetList \<Rightarrow>
          bnd (query_enter context) (\<lambda>c.
          bnd (expression_tree_walker (codd_walker cat) (list_node rtable) c) (\<lambda>(result, c).
          bnd (query_push c) (\<lambda>c.
          bnd (expression_tree_walker (codd_walker cat) jointree c) (\<lambda>(b, c).
          Inr (b \<or> result, c\<lparr>current_trueVar := current_trueVar context\<rparr>)))))
      | RangeTblEntry rtekind relid subquery al er f \<Rightarrow>
          if rtekind = RTE_RELATION
          then bnd (relation_step cat relid context) (\<lambda>c. Inr (False, c))
          else if rtekind = RTE_SUBQUERY
          then bnd (subquery_rtable subquery) (\<lambda>rt.
               expression_tree_walker (codd_walker cat) (list_node rt) context)
          else expression_tree_walker (codd_walker cat) node context
      | _ \<Rightarrow> expression_tree_walker (codd_walker cat) node context)"
  by pat_completeness auto
termination
  by (relation "measure (\<lambda>(cat, n, c). weight n)") (auto dest!: weight_subquery_rtable)

function marked_walker :: "pg_catalog \<Rightarrow> node \<Rightarrow> wctx \<Rightarrow> (bool \<times> wctx) res" where
  "marked_walker cat node context =
     (case node of
        Null \<Rightarrow> Inr (False, context)
      | BoolExpr boolop args l \<Rightarrow>
          if args = [] then Inl Segv
          else bnd (expression_tree_walker (marked_walker cat) node (bool_enter context)) (\<lambda>(retour, c).
               bnd (bool_leave boolop context (int (length args)) c) (\<lambda>c. Inr (retour, c)))
      | Var v \<Rightarrow>
          bnd (if ready context then var_step v context else Inr context)
            (\<lambda>c. expression_tree_walker (marked_walker cat) node c)
      | OpExpr opno f args \<Rightarrow>
          if opno = 518
          then bnd (expression_tree_walker (marked_walker cat) node (op_enter context)) (\<lambda>(retour, c).
               bnd (op_leave c) (\<lambda>c. Inr (retour, c)))
          else expression_tree_walker (marked_walker cat) node context
      | Query q rtable jointree targetList \<Rightarrow>
          bnd (query_enter context) (\<lambda>c.
          bnd (expression_tree_walker (marked_walker cat) (list_node rtable) c) (\<lambda>(result, c).
          bnd (query_push c) (\<lambda>c.
          bnd (expression_tree_walker (marked_walker cat) jointree c) (\<lambda>(b, c).
          Inr (b \<or> result, c\<lparr>current_trueVar := current_trueVar context\<rparr>)))))
      | RangeTblEntry rtekind relid subquery al er f \<Rightarrow>
          bnd (relation_step cat relid context) (\<lambda>c. Inr (False, c))
      | _ \<Rightarrow> expression_tree_walker (marked_walker cat) node context)"
  by pat_completeness auto
termination
  by (relation "measure (\<lambda>(cat, n, c). weight n)") auto

declare codd_walker.simps [simp del] marked_walker.simps [simp del]

end
