(* ===== verification/Null_Mutator.thy ===== *)
theory Null_Mutator
  imports True_Var
begin

section \<open>The mutators of \<open>certain_answer_codd.c\<close> and \<open>certain_answer_marked.c\<close>\<close>

text \<open>
  The second pass rewrites the conditions. Under an odd number of negations the Codd plug-in
  weakens a comparison by a disjunct \<open>x IS NULL\<close> for every variable \<open>x\<close> of it that is not known to
  be non-null; the marked-null plug-in, where a negative integer is a marked null, adds comparisons
  with zero, and splits \<open>>=\<close> and \<open><=\<close> into an equality and a strict comparison.

  The list \<open>constraint_to_add\<close> belongs to the context alone, so it is a value; the lists of
  variables are read, copied and concatenated in the memory the first pass built.
\<close>

text \<open>Whether a sub-query occurs in a tree, found with the tree walker itself.\<close>

function query_walker :: "node \<Rightarrow> nat \<Rightarrow> (bool \<times> nat) res" where
  "query_walker node u =
     (case node of
        Query q rtable jointree targetList \<Rightarrow> Inr (True, u)
      | _ \<Rightarrow> expression_tree_walker query_walker node u)"
  by pat_completeness auto
termination
  by (relation "measure (\<lambda>(n, u). weight n)") auto

declare query_walker.simps [simp del]

definition has_query :: "node \<Rightarrow> bool" where
  "has_query n \<longleftrightarrow> query_walker n 0 \<noteq> Inr (False, 0)"

subsection \<open>Parts the two mutators share\<close>

definition bool_constraints :: "mctx \<Rightarrow> mctx res" where
  "bool_constraints context =
     bnd (list_copy (mmem context) (list_of_not_null_in_current context)) (\<lambda>(l, m).
     bnd (load_list m (mlist_list_true context)) (\<lambda>h.
     bnd (list_nth m (if positive context then mlist_list_true context else mlist_list_false context)
            (llength h - where_i_am context - 1)) (\<lambda>l2.
     bnd (list_concat m l l2) (\<lambda>(l, m).
     Inr (context\<lparr>mmem := m, list_of_not_null_in_current := l, where_i_am := where_i_am context + 1\<rparr>)))))"

definition query_vars :: "mctx \<Rightarrow> mctx res" where
  "query_vars context =
     bnd (list_nth (mmem context) (mtrueVars context) (where_i_am_querry context)) (\<lambda>cur.
     Inr (context\<lparr>mcurrent_trueVar := cur, where_i_am_querry := where_i_am_querry context + 1\<rparr>))"

text \<open>The disjunction, or conjunction, of the pending constraints and the comparison itself.\<close>

definition add_pending :: "BoolExprType \<Rightarrow> node \<Rightarrow> mctx \<Rightarrow> node \<times> mctx" where
  "add_pending boolop result context =
     (makeBoolExpr boolop (constraint_to_add context @ [result]) (-1),
      context\<lparr>constraint_to_add := [], mready := False\<rparr>)"

subsection \<open>Codd nulls\<close>

definition codd_ops :: "nat list" where
  "codd_ops = [518, 416, 98, 521, 525, 523, 97, 1209]"

definition null_check :: "pg_var \<Rightarrow> mctx \<Rightarrow> (node \<times> mctx) res" where
  "null_check v context =
     bnd (getTrueVar (mmem context) (mcurrent_trueVar context) v) (\<lambda>rv.
     bnd (isInListTrueVar (mmem context) (list_of_not_null_in_current context) rv) (\<lambda>b.
     if b then Inr (Var v, context)
     else let node = Var (v\<lparr>vlocation := -1\<rparr>)
          in Inr (node, context\<lparr>constraint_to_add := constraint_to_add context @ [NullTest IS_NULL node False (-1)]\<rparr>)))"

function codd_mutator :: "node \<Rightarrow> mctx \<Rightarrow> (node \<times> mctx) res" where
  "codd_mutator node context =
     (case node of
        Null \<Rightarrow> Inr (Null, context)
      | BoolExpr boolop args l \<Rightarrow>
          if boolop = NOT_EXPR
          then bnd (expression_tree_mutator codd_mutator node (context\<lparr>positive := \<not> positive context\<rparr>))
                 (\<lambda>(retour, c). Inr (retour, c\<lparr>positive := \<not> positive c\<rparr>))
          else bnd (bool_constraints context) (\<lambda>c.
               bnd (expression_tree_mutator codd_mutator node c) (\<lambda>(retour, c).
               Inr (retour, c\<lparr>list_of_not_null_in_current := list_of_not_null_in_current context\<rparr>)))
      | Query q rtable jointree targetList \<Rightarrow>
          bnd (query_vars context) (\<lambda>c.
          bnd (expression_tree_mutator codd_mutator jointree c) (\<lambda>(jointree, c).
          Inr (Query q rtable jointree targetList, c\<lparr>mcurrent_trueVar := mcurrent_trueVar context\<rparr>)))
      | OpExpr opno f args \<Rightarrow>
          bnd (expression_tree_mutator codd_mutator node
                 (if \<not> positive context \<and> opno \<in> set codd_ops then context\<lparr>mready := True\<rparr> else context))
            (\<lambda>(result, c).
            if constraint_to_add c = [] then Inr (result, c)
            else if \<not> positive c then Inr (add_pending OR_EXPR result c)
            else if has_query node then Inl Shared
            else expression_tree_mutator codd_mutator node c)
      | Var v \<Rightarrow>
          if mready context
          then bnd (null_check v context) (\<lambda>(n, c). Inr (n, c))
          else Inr (node, context)
      | _ \<Rightarrow> expression_tree_mutator codd_mutator node context)"
  by pat_completeness auto
termination
  by (relation "measure (\<lambda>(n, c). weight n)") auto

subsection \<open>Marked nulls\<close>

definition compare_zero :: "nat \<Rightarrow> node \<Rightarrow> node" where
  "compare_zero opno node = OpExpr opno [] [node, makeConst 23 (-1) 0 4 0 False True]"

definition mark_check :: "pg_var \<Rightarrow> mctx \<Rightarrow> mctx res" where
  "mark_check v context =
     bnd (getTrueVar (mmem context) (mcurrent_trueVar context) v) (\<lambda>rv.
     bnd (if positive context then Inr context
          else bnd (isInListTrueVar (mmem context) (list_of_not_null_in_current context) rv) (\<lambda>b.
               Inr (if b then context
                    else context\<lparr>constraint_to_add := constraint_to_add context @ [compare_zero 97 (Var v)]\<rparr>)))
       (\<lambda>c. Inr (if positive c
                 then c\<lparr>constraint_to_add := constraint_to_add c @ [compare_zero 521 (Var v)]\<rparr> else c)))"

definition split_comparison :: "nat \<Rightarrow> node list \<Rightarrow> node" where
  "split_comparison stric args =
     makeBoolExpr OR_EXPR [OpExpr 96 [] args, OpExpr stric [] args] (-1)"

lemma weight_split_comparison:
  "stric \<noteq> 525 \<Longrightarrow> stric \<noteq> 523 \<Longrightarrow> weight (split_comparison stric args) = 6 + 2 * sum_list (map weight args)"
  by (simp add: split_comparison_def makeBoolExpr_def)

function marked_mutator :: "node \<Rightarrow> mctx \<Rightarrow> (node \<times> mctx) res" where
  "marked_mutator node context =
     (case node of
        Null \<Rightarrow> Inr (Null, context)
      | BoolExpr boolop args l \<Rightarrow>
          if boolop = NOT_EXPR
          then bnd (expression_tree_mutator marked_mutator node (context\<lparr>positive := \<not> positive context\<rparr>))
                 (\<lambda>(retour, c). Inr (retour, c\<lparr>positive := \<not> positive c\<rparr>))
          else bnd (bool_constraints context) (\<lambda>c.
               bnd (expression_tree_mutator marked_mutator node c) (\<lambda>(retour, c).
               Inr (retour, c\<lparr>list_of_not_null_in_current := list_of_not_null_in_current context\<rparr>)))
      | Query q rtable jointree targetList \<Rightarrow>
          bnd (query_vars context) (\<lambda>c.
          bnd (expression_tree_mutator marked_mutator jointree c) (\<lambda>(jointree, c).
          Inr (Query q rtable jointree targetList, c\<lparr>mcurrent_trueVar := mcurrent_trueVar context\<rparr>)))
      | OpExpr opno f args \<Rightarrow>
          (let c = (if positive context \<and> opno = 518 \<or> \<not> positive context \<and> opno = 96
                    then context\<lparr>mready := True\<rparr> else context)
           in if opno = 525
              then if has_query node then Inl Shared
                   else expression_tree_mutator marked_mutator (split_comparison 521 args) c
              else if opno = 523
              then if has_query node then Inl Shared
                   else expression_tree_mutator marked_mutator (split_comparison 97 args) c
              else bnd (expression_tree_mutator marked_mutator node
                          (if \<not> positive c \<and> opno = 1209 then c\<lparr>mready := True\<rparr> else c))
                     (\<lambda>(result, c).
                     if constraint_to_add c = [] then Inr (result, c)
                     else if \<not> positive c then Inr (add_pending OR_EXPR result c)
                     else Inr (add_pending AND_EXPR result c)))
      | Var v \<Rightarrow>
          bnd (if mready context then mark_check v context else Inr context) (\<lambda>c. Inr (node, c))
      | _ \<Rightarrow> expression_tree_mutator marked_mutator node context)"
  by pat_completeness auto
termination
  by (relation "measure (\<lambda>(n, c). weight n)") (auto simp: weight_split_comparison)

declare codd_mutator.simps [simp del] marked_mutator.simps [simp del]

end
