(* ===== verification/Self_Optimize.thy ===== *)
theory Self_Optimize
  imports Pg_NodeFuncs
begin

section \<open>\<open>self_optimize.c\<close>: constraints on one relation move into the range table\<close>

text \<open>
  The pass takes the comparisons and null tests that mention the variables of one relation only out
  of the condition of a query, groups them, and replaces the relation in the range table by a
  sub-query with that condition. The counter from which the names of the sub-queries are made is a
  static variable of the C function, so it is part of the state.
\<close>

record context_optimizer_self =
  disjunction :: bool
  equality :: bool
  add :: bool
  already_constrain_rel :: "node list"
  varno_to_add :: int
  varlevelsup_to_add :: int
  varno_to_add_or :: int
  varlevelsup_to_add_or :: int
  varno_to_add_eq :: int
  varlevelsup_to_add_eq :: int

record temp_context_rewrite =
  rvarno_to_add :: int
  rvarlevelsup_to_add :: int
  rto_add :: bool

record temp_context =
  tvarno_to_add :: int
  tvarlevelsup_to_add :: int
  tconstraint_to_add :: node
  to_add :: bool
  already_add :: bool

definition make_context_optimizer_self :: context_optimizer_self where
  "make_context_optimizer_self =
     \<lparr>disjunction = False, equality = False, add = False, already_constrain_rel = [],
      varno_to_add = -1, varlevelsup_to_add = -1, varno_to_add_or = -1, varlevelsup_to_add_or = -1,
      varno_to_add_eq = -1, varlevelsup_to_add_eq = -1\<rparr>"

definition make_temp_context_rewrite :: temp_context_rewrite where
  "make_temp_context_rewrite = \<lparr>rvarno_to_add = -1, rvarlevelsup_to_add = -1, rto_add = False\<rparr>"

definition make_temp_context :: "node \<Rightarrow> int \<Rightarrow> int \<Rightarrow> temp_context" where
  "make_temp_context constraint vno vlevelsup =
     \<lparr>tvarno_to_add = vno, tvarlevelsup_to_add = vlevelsup, tconstraint_to_add = constraint,
      to_add = False, already_add = False\<rparr>"

subsection \<open>Grouping the constraints\<close>

function temp_modifier_add :: "node \<Rightarrow> temp_context \<Rightarrow> (node \<times> temp_context) res" where
  "temp_modifier_add node context =
     (case node of
        Null \<Rightarrow> Inr (Null, context)
      | Var v \<Rightarrow>
          Inr (node, if index_eq (varlevelsup v) (tvarlevelsup_to_add context) \<and>
                        index_eq (varno v) (tvarno_to_add context)
                     then context\<lparr>to_add := True\<rparr> else context)
      | BoolExpr boolop args l \<Rightarrow>
          bnd (expression_tree_mutator temp_modifier_add node context) (\<lambda>(tmp, c).
          case tmp of
            BoolExpr b as l' \<Rightarrow>
              if b = AND_EXPR \<and> to_add c
              then Inr (TList (as @ [tconstraint_to_add c]), c\<lparr>to_add := False, already_add := True\<rparr>)
              else Inr (tmp, c)
          | _ \<Rightarrow> Inl BadAccess)
      | _ \<Rightarrow> expression_tree_mutator temp_modifier_add node context)"
  by pat_completeness auto
termination
  by (relation "measure (\<lambda>(n, c). weight n)") auto

fun add_loop :: "node list \<Rightarrow> node list \<Rightarrow> temp_context \<Rightarrow> (node list \<times> temp_context) res" where
  "add_loop [] result context = Inr (result, context)"
| "add_loop (t # ts) result context =
     (if already_add context then add_loop ts (result @ [t]) context
      else bnd (temp_modifier_add t context) (\<lambda>(new, c).
        if to_add c \<and> \<not> already_add c
        then add_loop ts (result @ [makeBoolExpr AND_EXPR [new, tconstraint_to_add c] (-1)])
               (c\<lparr>to_add := False, already_add := True\<rparr>)
        else add_loop ts (result @ [new]) c))"

definition add_constrain :: "node list \<Rightarrow> temp_context \<Rightarrow> node list res" where
  "add_constrain already context =
     (if already = [] then Inr [tconstraint_to_add context]
      else bnd (add_loop already [] context) (\<lambda>(result, c).
           Inr (if already_add c then result else result @ [tconstraint_to_add c])))"

subsection \<open>Collecting the constraints\<close>

definition self_var :: "pg_var \<Rightarrow> context_optimizer_self \<Rightarrow> context_optimizer_self" where
  "self_var v c =
     (if disjunction c \<and> varno_to_add_or c \<noteq> -1 \<and>
         (\<not> index_eq (varno v) (varno_to_add_or c) \<or> \<not> index_eq (varlevelsup v) (varlevelsup_to_add_or c))
      then c\<lparr>add := False\<rparr>
      else if equality c \<and> varno_to_add_eq c \<noteq> -1 \<and>
         (\<not> index_eq (varno v) (varno_to_add_eq c) \<or> \<not> index_eq (varlevelsup v) (varlevelsup_to_add_eq c))
      then c\<lparr>add := False\<rparr>
      else let vno = int_of_index (varno v); vl = int_of_index (varlevelsup v);
               c = c\<lparr>varno_to_add := vno, varlevelsup_to_add := vl\<rparr>;
               c = (if disjunction c then c\<lparr>varno_to_add_or := vno, varlevelsup_to_add_or := vl\<rparr> else c);
               c = (if equality c then c\<lparr>varno_to_add_eq := vno, varlevelsup_to_add_eq := vl\<rparr> else c)
           in c\<lparr>add := True\<rparr>)"

text \<open>The constraint \<open>node\<close> joins the collected ones and leaves the condition.\<close>

definition self_take :: "node \<Rightarrow> context_optimizer_self \<Rightarrow> (node \<times> context_optimizer_self) res" where
  "self_take node c =
     bnd (add_constrain (already_constrain_rel c) (make_temp_context node (varno_to_add c) (varlevelsup_to_add c)))
       (\<lambda>l. Inr (Null, c\<lparr>add := False, already_constrain_rel := l\<rparr>))"

function my_modifier_self :: "node \<Rightarrow> context_optimizer_self \<Rightarrow> (node \<times> context_optimizer_self) res" where
  "my_modifier_self node context =
     (case node of
        Null \<Rightarrow> Inr (Null, context)
      | Query q rtable jointree targetList \<Rightarrow> Inr (node, context)
      | Var v \<Rightarrow> Inr (node, self_var v context)
      | BoolExpr boolop args l \<Rightarrow>
          if boolop = OR_EXPR
          then bnd (expression_tree_mutator my_modifier_self node
                      (context\<lparr>disjunction := True, varno_to_add_or := -1, varlevelsup_to_add_or := -1\<rparr>))
                 (\<lambda>(retour, c).
                 let c = c\<lparr>disjunction := False, varno_to_add := -1, varlevelsup_to_add := -1\<rparr>
                 in if add c then self_take node c else Inr (retour, c))
          else expression_tree_mutator my_modifier_self node context
      | NullTest t arg r l \<Rightarrow>
          bnd (expression_tree_mutator my_modifier_self node context) (\<lambda>(retour, c).
          if add c \<and> \<not> disjunction c then self_take node c else Inr (retour, c))
      | OpExpr opno f args \<Rightarrow>
          bnd (expression_tree_mutator my_modifier_self node (context\<lparr>equality := True\<rparr>)) (\<lambda>(retour, c).
          let c = c\<lparr>equality := False, varno_to_add_eq := -1, varlevelsup_to_add_eq := -1\<rparr>
          in if add c \<and> \<not> disjunction c then self_take node c else Inr (retour, c))
      | _ \<Rightarrow> expression_tree_mutator my_modifier_self node context)"
  by pat_completeness auto
termination
  by (relation "measure (\<lambda>(n, c). weight n)") auto

subsection \<open>Building the sub-queries\<close>

function init_rel :: "node \<Rightarrow> temp_context_rewrite \<Rightarrow> (bool \<times> temp_context_rewrite) res" where
  "init_rel node context =
     (case node of
        Null \<Rightarrow> Inr (False, context)
      | Var v \<Rightarrow> Inr (True, context\<lparr>rvarno_to_add := int_of_index (varno v),
                                     rvarlevelsup_to_add := int_of_index (varlevelsup v)\<rparr>)
      | _ \<Rightarrow> expression_tree_walker init_rel node context)"
  by pat_completeness auto
termination
  by (relation "measure (\<lambda>(n, c). weight n)") auto

function modif_rel :: "node \<Rightarrow> 's \<Rightarrow> (node \<times> 's) res" where
  "modif_rel node context =
     (case node of
        Null \<Rightarrow> Inr (Null, context)
      | Var v \<Rightarrow> Inr (Var (v\<lparr>varno := 1\<rparr>), context)
      | _ \<Rightarrow> expression_tree_mutator modif_rel node context)"
  by pat_completeness auto
termination
  by (relation "measure (\<lambda>(n, c). weight n)") auto

text \<open>
  The loop over a target list that \<open>modif_targetEntry\<close>, \<open>mutator_target\<close> and \<open>mutator_varTarget\<close>
  share: an entry is kept, and renumbered, when mutating it has raised the flag.
\<close>

fun set_resno :: "int \<Rightarrow> node \<Rightarrow> node res" where
  "set_resno i (TargetEntry expr resno f) = Inr (TargetEntry expr i f)"
| "set_resno i Null = Inl Segv"
| "set_resno i _ = Inl BadAccess"

fun target_loop ::
  "('s \<Rightarrow> bool) \<Rightarrow> ('s \<Rightarrow> 's) \<Rightarrow> 's mutator \<Rightarrow> node list \<Rightarrow> int \<Rightarrow> node list \<Rightarrow> 's \<Rightarrow> (node list \<times> 's) res"
where
  "target_loop flag reset mutator [] i result s = Inr (result, s)"
| "target_loop flag reset mutator (t # ts) i result s =
     bnd (mutator t s) (\<lambda>(n, s).
     if flag s
     then bnd (set_resno i n) (\<lambda>n. target_loop flag reset mutator ts (i + 1) (result @ [n]) (reset s))
     else target_loop flag reset mutator ts i result s)"

lemma target_loop_cong [fundef_cong]:
  assumes "flag = flag'" and "reset = reset'" and "ts = ts'" and "i = i'" and "r = r'" and "s = s'"
    and "\<And>t s. t \<in> set ts' \<Longrightarrow> f t s = g t s"
  shows "target_loop flag reset f ts i r s = target_loop flag' reset' g ts' i' r' s'"
  using assms(7) unfolding assms(1-6)
proof (induction ts' arbitrary: i' r' s')
  case Nil
  show ?case by simp
next
  case (Cons t ts)
  then have "f t s' = g t s'" and "target_loop flag' reset' f ts = target_loop flag' reset' g ts"
    by (auto intro!: ext)
  then show ?case by (simp cong: if_cong)
qed

function modif_targetEntry :: "node \<Rightarrow> temp_context_rewrite \<Rightarrow> (node \<times> temp_context_rewrite) res" where
  "modif_targetEntry node context =
     (case node of
        Null \<Rightarrow> Inr (Null, context)
      | Var v \<Rightarrow>
          if \<not> index_eq (varno v) (rvarno_to_add context) then Inr (Null, context)
          else Inr (Var (v\<lparr>varno := 1\<rparr>), context\<lparr>rto_add := True\<rparr>)
      | TList xs \<Rightarrow>
          bnd (target_loop rto_add (rto_add_update (\<lambda>_. False)) modif_targetEntry xs 1 [] context)
            (\<lambda>(result, c). Inr (list_node result, c))
      | _ \<Rightarrow> expression_tree_mutator modif_targetEntry node context)"
  by pat_completeness auto
termination
  by (relation "measure (\<lambda>(n, c). weight n)") (auto dest: weight_elem)

definition create_from_query :: "node \<Rightarrow> node \<Rightarrow> node list \<Rightarrow> node" where
  "create_from_query rte constraint listTargetEntry =
     Query (zero_query\<lparr>commandType := 1, canSetTag := True\<rparr>) [rte]
       (makeFromExpr [RangeTblRef 1] constraint) listTargetEntry"

function decimal :: "nat \<Rightarrow> string" where
  "decimal n = (if n < 10 then [char_of (48 + n)] else decimal (n div 10) @ [char_of (48 + n mod 10)])"
  by pat_completeness auto
termination
  by (relation "measure id") auto

definition rel_name :: "nat \<Rightarrow> string" where
  "rel_name i = CHR ''a'' # decimal i"

fun to_subquery :: "nat \<Rightarrow> node \<Rightarrow> node \<Rightarrow> node res" where
  "to_subquery i nq (RangeTblEntry rtekind relid subquery al er f) =
     (case er of
        None \<Rightarrow> Inl Segv
      | Some e \<Rightarrow> Inr (RangeTblEntry RTE_SUBQUERY relid nq (Some (makeAlias (rel_name i) []))
                        (Some (makeAlias (rel_name i) (colnames e))) f))"
| "to_subquery i nq Null = Inl Segv"
| "to_subquery i nq _ = Inl BadAccess"

fun rewrite_self :: "node list \<Rightarrow> node list \<Rightarrow> node list \<Rightarrow> nat \<Rightarrow> (node list \<times> nat) res" where
  "rewrite_self targetList rtable [] i = Inr (rtable, i)"
| "rewrite_self targetList rtable (t # ts) i =
     bnd (init_rel t make_temp_context_rewrite) (\<lambda>(_, ctx).
     bnd (modif_rel t ()) (\<lambda>(n_constraint, _).
     bnd (modif_targetEntry (list_node targetList) ctx) (\<lambda>(l, ctx).
     bnd (as_list l) (\<lambda>l.
     bnd (lnth rtable (rvarno_to_add ctx - 1)) (\<lambda>rte.
     bnd (to_subquery (Suc i) (create_from_query rte n_constraint l) rte) (\<lambda>ef.
     rewrite_self targetList (rtable[nat (rvarno_to_add ctx - 1) := ef]) ts (Suc i)))))))"

definition optimize_self_constraint ::
  "node list \<Rightarrow> node \<Rightarrow> node list \<Rightarrow> nat \<Rightarrow> ((node list \<times> node) \<times> nat) res"
where
  "optimize_self_constraint rtable jointree targetList i =
     bnd (my_modifier_self jointree make_context_optimizer_self) (\<lambda>(jointree, ctx_self).
     bnd (rewrite_self targetList rtable (already_constrain_rel ctx_self) i) (\<lambda>(rtable, i).
     Inr ((rtable, jointree), i)))"

function mutator_deep :: "node \<Rightarrow> nat \<Rightarrow> (node \<times> nat) res" where
  "mutator_deep node i =
     (case node of
        Null \<Rightarrow> Inr (Null, i)
      | Query q rtable jointree targetList \<Rightarrow>
          bnd (expression_tree_mutator mutator_deep jointree i) (\<lambda>(jointree, i).
          bnd (optimize_self_constraint rtable jointree targetList i) (\<lambda>((rtable, jointree), i).
          Inr (Query q rtable jointree targetList, i)))
      | _ \<Rightarrow> expression_tree_mutator mutator_deep node i)"
  by pat_completeness auto
termination
  by (relation "measure (\<lambda>(n, c). weight n)") auto

definition optimize_self_constraint_deep :: "node \<Rightarrow> nat \<Rightarrow> (node \<times> nat) res" where
  "optimize_self_constraint_deep q i = mutator_deep q i"

declare temp_modifier_add.simps [simp del] my_modifier_self.simps [simp del] init_rel.simps [simp del]
  modif_rel.simps [simp del] modif_targetEntry.simps [simp del] decimal.simps [simp del]
  mutator_deep.simps [simp del]

end
