(* ===== verification/Split_Optimize.thy ===== *)
theory Split_Optimize
  imports Pg_NodeFuncs
begin

section \<open>\<open>split_optimize.c\<close>: one \<open>NOT EXISTS\<close> per disjunct\<close>

text \<open>
  The pass replaces \<open>NOT EXISTS (... WHERE c)\<close> by a conjunction of \<open>NOT EXISTS (... WHERE c\<^sub>i)\<close>,
  one for each way to choose one argument of every disjunction in \<open>c\<close>. The two loops of \<open>trueSplit\<close>
  need not end, so they run on fuel and give \<open>Loop\<close> when it is used up.
\<close>

record context_split =
  which_i_choose :: int
  have_to_duplicate :: bool
  stop :: bool

definition make_context_split :: context_split where
  "make_context_split = \<lparr>which_i_choose = 0, have_to_duplicate = True, stop = False\<rparr>"

definition choose_arg :: "node list \<Rightarrow> context_split \<Rightarrow> (node \<times> context_split) res" where
  "choose_arg or_args context =
     bnd (lnth or_args (which_i_choose context)) (\<lambda>my_arg.
     Inr (my_arg,
       if int (length or_args) = which_i_choose context + 1
       then context\<lparr>stop := True, have_to_duplicate := False\<rparr>
       else context\<lparr>stop := True, which_i_choose := which_i_choose context + 1, have_to_duplicate := True\<rparr>))"

function split_rel :: "node \<Rightarrow> context_split \<Rightarrow> (node \<times> context_split) res" where
  "split_rel node context =
     (case node of
        Null \<Rightarrow> Inr (Null, context)
      | BoolExpr boolop args l \<Rightarrow>
          if boolop = OR_EXPR \<and> \<not> stop context then choose_arg args context
          else expression_tree_mutator split_rel node context
      | _ \<Rightarrow> expression_tree_mutator split_rel node context)"
  by pat_completeness auto
termination
  by (relation "measure (\<lambda>(n, c). weight n)") auto

function have_to_split :: "node \<Rightarrow> 's \<Rightarrow> (bool \<times> 's) res" where
  "have_to_split node context =
     (case node of
        Null \<Rightarrow> Inr (False, context)
      | BoolExpr boolop args l \<Rightarrow>
          if boolop = OR_EXPR then Inr (True, context)
          else expression_tree_walker have_to_split node context
      | _ \<Rightarrow> expression_tree_walker have_to_split node context)"
  by pat_completeness auto
termination
  by (relation "measure (\<lambda>(n, c). weight n)") auto

fun split_loop :: "nat \<Rightarrow> node \<Rightarrow> node list \<Rightarrow> context_split \<Rightarrow> node list res" where
  "split_loop 0 backup pile ctx = Inl Loop"
| "split_loop (Suc fuel) backup pile ctx =
     bnd (expression_tree_mutator split_rel backup (ctx\<lparr>stop := False\<rparr>)) (\<lambda>(new_node, ctx).
     if have_to_duplicate ctx then split_loop fuel backup (pile @ [new_node]) ctx
     else Inr (pile @ [new_node]))"

fun pile_loop :: "nat \<Rightarrow> node list \<Rightarrow> node list \<Rightarrow> node list res" where
  "pile_loop 0 pile result = Inl Loop"
| "pile_loop (Suc fuel) [] result = Inr result"
| "pile_loop (Suc fuel) (backup # pile) result =
     bnd (have_to_split backup ()) (\<lambda>(b, _).
     if \<not> b then pile_loop fuel pile (result @ [backup])
     else bnd (split_loop fuel backup pile make_context_split) (\<lambda>pile.
          pile_loop fuel pile result))"

definition trueSplit :: "nat \<Rightarrow> node \<Rightarrow> node list res" where
  "trueSplit fuel negNode = pile_loop fuel [negNode] []"

fun query_quals :: "node \<Rightarrow> node res" where
  "query_quals (Query q rtable (FromExpr fromlist quals) targetList) = Inr quals"
| "query_quals (Query q rtable Null targetList) = Inl Segv"
| "query_quals Null = Inl Segv"
| "query_quals _ = Inl BadAccess"

fun set_quals :: "node \<Rightarrow> node \<Rightarrow> node" where
  "set_quals t (Query q rtable (FromExpr fromlist quals) targetList) = Query q rtable (FromExpr fromlist t) targetList"
| "set_quals t n = n"

definition not_exists :: "node \<Rightarrow> node" where
  "not_exists q = makeBoolExpr NOT_EXPR [SubLink EXISTS_SUBLINK [] Null q] (-1)"

definition optimize_split :: "nat \<Rightarrow> node \<Rightarrow> node res" where
  "optimize_split fuel q =
     bnd (query_quals q) (\<lambda>quals.
     bnd (trueSplit fuel quals) (\<lambda>result.
     let nexits = map (\<lambda>t. not_exists (set_quals t q)) result
     in if nexits = [] then Inl Segv
        else if length nexits > 1 then Inr (makeBoolExpr AND_EXPR nexits (-1))
        else lnth nexits 0))"

text \<open>The sub-query under a negation, when the first argument of the negation is a \<open>SubLink\<close>.\<close>

fun negated_sublink :: "node list \<Rightarrow> (query_misc \<times> node list \<times> node \<times> node list) option res" where
  "negated_sublink [] = Inl Segv"
| "negated_sublink (SubLink t f testexpr (Query q rtable jointree targetList) # _) =
     Inr (Some (q, rtable, jointree, targetList))"
| "negated_sublink (SubLink t f testexpr Null # _) = Inl Segv"
| "negated_sublink (SubLink t f testexpr _ # _) = Inl BadAccess"
| "negated_sublink (Null # _) = Inl Segv"
| "negated_sublink _ = Inr None"

lemma weight_negated_sublink:
  "negated_sublink args = Inr (Some (q, rt, jt, ts)) \<Longrightarrow> weight jt < sum_list (map weight args)"
  by (cases args rule: negated_sublink.cases) auto

function mutator_split_deep :: "nat \<Rightarrow> node \<Rightarrow> 's \<Rightarrow> (node \<times> 's) res" where
  "mutator_split_deep fuel node context =
     (case node of
        Null \<Rightarrow> Inr (Null, context)
      | BoolExpr boolop args l \<Rightarrow>
          if boolop = NOT_EXPR
          then bnd (negated_sublink args) (\<lambda>sb.
            case sb of
              Some (q, rtable, jointree, targetList) \<Rightarrow>
                bnd (mutator_split_deep fuel jointree context) (\<lambda>(jointree, context).
                bnd (optimize_split fuel (Query q rtable jointree targetList)) (\<lambda>n.
                Inr (n, context)))
            | None \<Rightarrow> expression_tree_mutator (mutator_split_deep fuel) node context)
          else expression_tree_mutator (mutator_split_deep fuel) node context
      | _ \<Rightarrow> expression_tree_mutator (mutator_split_deep fuel) node context)"
  by pat_completeness auto
termination
  by (relation "measure (\<lambda>(fuel, n, c). weight n)") (auto dest: weight_negated_sublink)

fun optimize_split_deep :: "nat \<Rightarrow> node \<Rightarrow> node res" where
  "optimize_split_deep fuel (Query q rtable jointree targetList) =
     bnd (mutator_split_deep fuel jointree ()) (\<lambda>(jointree, _). Inr (Query q rtable jointree targetList))"
| "optimize_split_deep fuel Null = Inl Segv"
| "optimize_split_deep fuel _ = Inl BadAccess"

declare split_rel.simps [simp del] have_to_split.simps [simp del] mutator_split_deep.simps [simp del]

end
