(* ===== verification/Exist_Optimize.thy ===== *)
theory Exist_Optimize
  imports Self_Optimize Pg_List_Sets
begin

section \<open>\<open>exist_optimize.c\<close>: one \<open>EXISTS\<close> per connected component\<close>

text \<open>
  The pass computes the connected components of the relations of a query, where two relations are
  connected when a comparison mentions both, and moves every component that is not connected to an
  outer query into an \<open>EXISTS\<close> of its own. The components are built by destructive concatenation
  and compared by address, so this part is modelled on the memory of \<open>Pg_Memory\<close>; afterwards the
  lists are only read, and are values from there on.
\<close>

type_synonym emem = "nat mem"

record context_exists =
  emem :: emem
  composante_connexe_sub_level :: nat
  list_composantes_connexes :: nat
  varno_en_cours :: int
  var_sub :: bool

record temp_context_connex_rew =
  list_constraint :: "node list"
  list_varno :: "int list"
  to_remove :: bool

record temp_context_connex_rew2 =
  list_varno2 :: "int list"
  to_add2 :: bool

definition make_temp_context_connex_rew :: "int list \<Rightarrow> temp_context_connex_rew" where
  "make_temp_context_connex_rew l = \<lparr>list_constraint = [], list_varno = l, to_remove = False\<rparr>"

definition make_temp_context_connex_rew2 :: "int list \<Rightarrow> temp_context_connex_rew2" where
  "make_temp_context_connex_rew2 l = \<lparr>list_varno2 = l, to_add2 = False\<rparr>"

subsection \<open>Connected components\<close>

fun singletons_loop :: "nat \<Rightarrow> int \<Rightarrow> emem \<Rightarrow> nat \<Rightarrow> (nat \<times> emem) res" where
  "singletons_loop 0 i m l = Inr (l, m)"
| "singletons_loop (Suc k) i m l =
     bnd (lappend_int m 0 (i + 1)) (\<lambda>(tmp, m).
     bnd (lappend m l tmp) (\<lambda>(l, m).
     singletons_loop k (i + 1) m l))"

definition make_context_exists :: "emem \<Rightarrow> nat \<Rightarrow> context_exists res" where
  "make_context_exists m nb_varno =
     bnd (singletons_loop nb_varno 0 m 0) (\<lambda>(l, m).
     Inr \<lparr>emem = m, composante_connexe_sub_level = 0, list_composantes_connexes = l,
          varno_en_cours = -1, var_sub = False\<rparr>)"

definition is_sub :: "int \<Rightarrow> context_exists \<Rightarrow> bool res" where
  "is_sub vno ctx = list_member_int (emem ctx) (composante_connexe_sub_level ctx) vno"

fun find_compo :: "nat \<Rightarrow> emem \<Rightarrow> int \<Rightarrow> nat \<Rightarrow> nat option res" where
  "find_compo 0 m vno cell = Inl Loop"
| "find_compo (Suc fuel) m vno cell =
     (if cell = 0 then Inr None
      else bnd (load_cell m cell) (\<lambda>c.
           bnd (as_ptr (cdata c)) (\<lambda>compo.
           bnd (list_member_int m compo vno) (\<lambda>b.
           if b then Inr (Some compo) else find_compo fuel m vno (cnext c)))))"

definition return_list :: "int \<Rightarrow> context_exists \<Rightarrow> nat res" where
  "return_list vno ctx =
     bnd (list_head (emem ctx) (list_composantes_connexes ctx)) (\<lambda>cell.
     bnd (find_compo (loop_fuel (emem ctx)) (emem ctx) vno cell) (\<lambda>r.
     case r of
       Some compo \<Rightarrow> Inr compo
     | None \<Rightarrow> bnd (is_sub vno ctx) (\<lambda>b. Inr (if b then composante_connexe_sub_level ctx else 0))))"

definition not_containing :: "int \<Rightarrow> emem \<Rightarrow> nat \<Rightarrow> lval \<Rightarrow> bool res" where
  "not_containing vno m res d =
     bnd (as_ptr d) (\<lambda>compo. bnd (list_member_int m compo vno) (\<lambda>b. Inr (\<not> b)))"

definition remove_from_list :: "int \<Rightarrow> context_exists \<Rightarrow> context_exists res" where
  "remove_from_list vno ctx =
     bnd (collect (not_containing vno) T_List (emem ctx) 0 (list_composantes_connexes ctx)) (\<lambda>(result, m).
     Inr (ctx\<lparr>emem := m, list_composantes_connexes := result\<rparr>))"

text \<open>A component joins the relations connected to the outer query, or another component.\<close>

definition join_sub_level :: "int \<Rightarrow> context_exists \<Rightarrow> context_exists res" where
  "join_sub_level vno ctx =
     bnd (return_list vno ctx) (\<lambda>b.
     bnd (list_concat (emem ctx) (composante_connexe_sub_level ctx) b) (\<lambda>(l, m).
     remove_from_list vno (ctx\<lparr>emem := m, composante_connexe_sub_level := l\<rparr>)))"

definition join_components :: "int \<Rightarrow> context_exists \<Rightarrow> context_exists res" where
  "join_components vno ctx =
     bnd (return_list (varno_en_cours ctx) ctx) (\<lambda>a.
     bnd (return_list vno ctx) (\<lambda>b.
     if a = b then Inr ctx
     else bnd (remove_from_list (varno_en_cours ctx) ctx) (\<lambda>ctx.
          bnd (remove_from_list vno ctx) (\<lambda>ctx.
          bnd (list_concat (emem ctx) a b) (\<lambda>(l, m).
          bnd (lappend m (list_composantes_connexes ctx) l) (\<lambda>(ll, m).
          Inr (ctx\<lparr>emem := m, list_composantes_connexes := ll\<rparr>)))))))"

definition connexe_var :: "pg_var \<Rightarrow> context_exists \<Rightarrow> context_exists res" where
  "connexe_var v ctx =
     (let vno = int_of_index (varno v); outer = varlevelsup v > 0
      in if varno_en_cours ctx = -1
         then bnd (if outer then Inr True else is_sub vno ctx) (\<lambda>s.
              Inr (ctx\<lparr>varno_en_cours := vno, var_sub := (var_sub ctx \<or> s)\<rparr>))
         else bnd (is_sub vno ctx) (\<lambda>sub.
              if var_sub ctx \<and> (sub \<or> outer) then Inr ctx
              else if var_sub ctx \<and> \<not> sub \<and> \<not> outer then join_sub_level vno ctx
              else if sub \<or> outer then join_sub_level (varno_en_cours ctx) ctx
              else join_components vno ctx))"

function create_connexe :: "node \<Rightarrow> context_exists \<Rightarrow> (bool \<times> context_exists) res" where
  "create_connexe node ctx =
     (case node of
        Null \<Rightarrow> Inr (False, ctx)
      | OpExpr opno f args \<Rightarrow>
          bnd (expression_tree_walker create_connexe node ctx) (\<lambda>(retour, ctx).
          Inr (retour, ctx\<lparr>varno_en_cours := -1, var_sub := False\<rparr>))
      | Var v \<Rightarrow> bnd (connexe_var v ctx) (\<lambda>ctx. Inr (False, ctx))
      | _ \<Rightarrow> expression_tree_walker create_connexe node ctx)"
  by pat_completeness auto
termination
  by (relation "measure (\<lambda>(n, c). weight n)") auto

subsection \<open>Reading the components\<close>

fun read_loop :: "nat \<Rightarrow> 'o mem \<Rightarrow> (lval \<Rightarrow> 'a res) \<Rightarrow> nat \<Rightarrow> 'a list res" where
  "read_loop 0 m f cell = Inl Loop"
| "read_loop (Suc fuel) m f cell =
     (if cell = 0 then Inr []
      else bnd (load_cell m cell) (\<lambda>c.
           bnd (f (cdata c)) (\<lambda>x.
           bnd (read_loop fuel m f (cnext c)) (\<lambda>xs. Inr (x # xs)))))"

definition read_list :: "'o mem \<Rightarrow> (lval \<Rightarrow> 'a res) \<Rightarrow> nat \<Rightarrow> 'a list res" where
  "read_list m f l = bnd (list_head m l) (read_loop (loop_fuel m) m f)"

definition read_components :: "emem \<Rightarrow> nat \<Rightarrow> int list list res" where
  "read_components m l = read_list m (\<lambda>d. bnd (as_ptr d) (read_list m as_int)) l"

subsection \<open>Numbering of the relations\<close>

fun is_in_list_from :: "int \<Rightarrow> int \<Rightarrow> int list \<Rightarrow> int" where
  "is_in_list_from i vno [] = 0"
| "is_in_list_from i vno (x # xs) = (if vno = x then i else is_in_list_from (i + 1) vno xs)"

definition is_in_list :: "int \<Rightarrow> int list \<Rightarrow> int" where
  "is_in_list vno xs = is_in_list_from 1 vno xs"

fun deacrease_count :: "int \<Rightarrow> int list \<Rightarrow> int \<Rightarrow> int" where
  "deacrease_count vno [] i = i"
| "deacrease_count vno (x # xs) i = deacrease_count vno xs (if vno > x then i + 1 else i)"

definition deacrease :: "int \<Rightarrow> int list \<Rightarrow> int" where
  "deacrease vno xs = vno - deacrease_count vno xs 0"

subsection \<open>Rewriting the query\<close>

function mutator_conn :: "node \<Rightarrow> temp_context_connex_rew \<Rightarrow> (node \<times> temp_context_connex_rew) res" where
  "mutator_conn node ctx =
     (case node of
        Null \<Rightarrow> Inr (Null, ctx)
      | OpExpr opno f args \<Rightarrow>
          bnd (expression_tree_mutator mutator_conn node ctx) (\<lambda>(n, ctx).
          if to_remove ctx
          then Inr (Null, ctx\<lparr>list_constraint := list_constraint ctx @ [n], to_remove := False\<rparr>)
          else Inr (n, ctx))
      | Var v \<Rightarrow>
          Inr (node, if varlevelsup v = 0 \<and> is_in_list (int_of_index (varno v)) (list_varno ctx) \<noteq> 0
                     then ctx\<lparr>to_remove := True\<rparr> else ctx)
      | _ \<Rightarrow> expression_tree_mutator mutator_conn node ctx)"
  by pat_completeness auto
termination
  by (relation "measure (\<lambda>(n, c). weight n)") auto

function mutator_target :: "node \<Rightarrow> temp_context_connex_rew2 \<Rightarrow> (node \<times> temp_context_connex_rew2) res" where
  "mutator_target node ctx =
     (case node of
        Null \<Rightarrow> Inr (Null, ctx)
      | Var v \<Rightarrow>
          (let i = is_in_list (int_of_index (varno v)) (list_varno2 ctx)
           in if i = 0 then Inr (Null, ctx)
              else Inr (Var (v\<lparr>varno := index_of_int i\<rparr>), ctx\<lparr>to_add2 := True\<rparr>))
      | TList xs \<Rightarrow>
          bnd (target_loop to_add2 (to_add2_update (\<lambda>_. False)) mutator_target xs 1 [] ctx)
            (\<lambda>(result, ctx). Inr (list_node result, ctx))
      | _ \<Rightarrow> expression_tree_mutator mutator_target node ctx)"
  by pat_completeness auto
termination
  by (relation "measure (\<lambda>(n, c). weight n)") (auto dest: weight_elem)

definition create_from_query_list :: "node list \<Rightarrow> node \<Rightarrow> node list \<Rightarrow> node" where
  "create_from_query_list list_rte constraint listTargetEntry =
     Query (zero_query\<lparr>commandType := 1, canSetTag := True\<rparr>) list_rte
       (makeFromExpr [RangeTblRef 1] constraint) listTargetEntry"

function mutator_varquals :: "node \<Rightarrow> temp_context_connex_rew2 \<Rightarrow> (node \<times> temp_context_connex_rew2) res" where
  "mutator_varquals node ctx =
     (case node of
        Null \<Rightarrow> Inr (Null, ctx)
      | Var v \<Rightarrow>
          Inr (Var (if varlevelsup v = 0
                    then v\<lparr>varno := index_of_int (deacrease (int_of_index (varno v)) (list_varno2 ctx))\<rparr>
                    else v), ctx)
      | _ \<Rightarrow> expression_tree_mutator mutator_varquals node ctx)"
  by pat_completeness auto
termination
  by (relation "measure (\<lambda>(n, c). weight n)") auto

function mutator_varTarget :: "node \<Rightarrow> temp_context_connex_rew2 \<Rightarrow> (node \<times> temp_context_connex_rew2) res" where
  "mutator_varTarget node ctx =
     (case node of
        Null \<Rightarrow> Inr (Null, ctx)
      | Var v \<Rightarrow>
          if is_in_list (int_of_index (varno v)) (list_varno2 ctx) \<noteq> 0 then Inr (Null, ctx)
          else Inr (Var (v\<lparr>varno := index_of_int (deacrease (int_of_index (varno v)) (list_varno2 ctx))\<rparr>),
                    ctx\<lparr>to_add2 := True\<rparr>)
      | TList xs \<Rightarrow>
          bnd (target_loop to_add2 (to_add2_update (\<lambda>_. False)) mutator_varTarget xs 1 [] ctx)
            (\<lambda>(result, ctx). Inr (list_node result, ctx))
      | _ \<Rightarrow> expression_tree_mutator mutator_varTarget node ctx)"
  by pat_completeness auto
termination
  by (relation "measure (\<lambda>(n, c). weight n)") (auto dest: weight_elem)

fun substract_loop :: "int \<Rightarrow> node list \<Rightarrow> node list \<Rightarrow> node list" where
  "substract_loop i [] result = result"
| "substract_loop i (x # xs) result =
     (if i \<le> 1 then result @ [x] else substract_loop (i - 1) xs (result @ [x]))"

definition substract :: "node list \<Rightarrow> int \<Rightarrow> node list res" where
  "substract input nb =
     (if input = [] then Inl Segv else Inr (substract_loop (int (length input) - nb) input []))"

fun pick_rtes :: "node list \<Rightarrow> int list \<Rightarrow> node list res" where
  "pick_rtes rtable [] = Inr []"
| "pick_rtes rtable (v # vs) =
     bnd (lnth rtable (v - 1)) (\<lambda>rte. bnd (pick_rtes rtable vs) (\<lambda>lrte. Inr (rte # lrte)))"

text \<open>
  \<open>list_delete_ptr\<close> applied to an element that \<open>list_nth\<close> returned. The entries of a range table
  are distinct objects, so the element deleted is the one at that index.
\<close>

fun delete_rtes :: "int \<Rightarrow> node list \<Rightarrow> int list \<Rightarrow> node list res" where
  "delete_rtes i rtable [] = Inr rtable"
| "delete_rtes i rtable (v # vs) =
     bnd (lnth rtable (v - 1 - i)) (\<lambda>_.
     let k = nat (v - 1 - i)
     in delete_rtes (i + 1) (take k rtable @ drop (Suc k) rtable) vs)"

fun conj_quals :: "node \<Rightarrow> node \<Rightarrow> node res" where
  "conj_quals (FromExpr fromlist quals) ex = Inr (FromExpr fromlist (makeBoolExpr AND_EXPR [quals, ex] (-1)))"
| "conj_quals Null ex = Inl Segv"
| "conj_quals _ ex = Inl BadAccess"

type_synonym query_parts = "node list \<times> node \<times> node list"

fun rewrite_connexe :: "int list \<Rightarrow> query_parts \<Rightarrow> query_parts res" where
  "rewrite_connexe lvarno (rtable, FromExpr fromlist quals, targetList) =
     bnd (expression_tree_mutator mutator_conn quals (make_temp_context_connex_rew lvarno)) (\<lambda>(quals, ctx).
     bnd (if lvarno = [] then Inl Segv else substract fromlist (int (length lvarno))) (\<lambda>fromlist.
     bnd (mutator_target (list_node targetList) (make_temp_context_connex_rew2 lvarno)) (\<lambda>(n, ctx2).
     bnd (as_list n) (\<lambda>n.
     bnd (pick_rtes rtable lvarno) (\<lambda>lrte.
     let ex = SubLink EXISTS_SUBLINK [] Null (create_from_query_list lrte (list_node (list_constraint ctx)) n)
     in bnd (delete_rtes 0 rtable lvarno) (\<lambda>rtable.
        bnd (mutator_varTarget (list_node targetList) ctx2) (\<lambda>(tlist, ctx2).
        bnd (as_list tlist) (\<lambda>targetList.
        bnd (mutator_varquals (FromExpr fromlist quals) ctx2) (\<lambda>(jointree, ctx2).
        bnd (conj_quals jointree ex) (\<lambda>jointree.
        Inr (rtable, jointree, targetList)))))))))))"
| "rewrite_connexe lvarno (rtable, Null, targetList) = Inl Segv"
| "rewrite_connexe lvarno (rtable, _, targetList) = Inl BadAccess"

function exist_loop :: "int list list \<Rightarrow> query_parts \<Rightarrow> query_parts res" where
  "exist_loop [] q = Inr q"
| "exist_loop (c # cs) q =
     bnd (rewrite_connexe c q) (\<lambda>q. exist_loop (map (map (\<lambda>v. deacrease v c)) cs) q)"
  by pat_completeness auto
termination
  by (relation "measure (\<lambda>(cs, q). length cs)") auto

definition components :: "node \<Rightarrow> nat \<Rightarrow> int list list res" where
  "components jointree n =
     bnd (make_context_exists empty_mem n) (\<lambda>ctx_e.
     bnd (create_connexe jointree ctx_e) (\<lambda>(_, ctx_e).
     read_components (emem ctx_e) (list_composantes_connexes ctx_e)))"

definition optimize_exist :: "query_parts \<Rightarrow> nat \<Rightarrow> (query_parts \<times> nat) res" where
  "optimize_exist nq i =
     (case nq of (rtable, jointree, targetList) \<Rightarrow>
      bnd (optimize_self_constraint rtable jointree targetList i) (\<lambda>((rtable, jointree), i).
      if rtable = [] then Inl Segv
      else bnd (components jointree (length rtable)) (\<lambda>cs.
           bnd (exist_loop cs (rtable, jointree, targetList)) (\<lambda>nq. Inr (nq, i)))))"

function mutator_exist_deep :: "node \<Rightarrow> nat \<Rightarrow> (node \<times> nat) res" where
  "mutator_exist_deep node i =
     (case node of
        Null \<Rightarrow> Inr (Null, i)
      | Query q rtable jointree targetList \<Rightarrow>
          bnd (expression_tree_mutator mutator_exist_deep jointree i) (\<lambda>(jointree, i).
          bnd (optimize_exist (rtable, jointree, targetList) i) (\<lambda>((rtable, jointree, targetList), i).
          Inr (Query q rtable jointree targetList, i)))
      | _ \<Rightarrow> expression_tree_mutator mutator_exist_deep node i)"
  by pat_completeness auto
termination
  by (relation "measure (\<lambda>(n, c). weight n)") auto

text \<open>
  The code discards the tree the mutator returns for the join tree. Outside queries that tree is a
  copy, and the queries in it are the ones of the original tree, updated in place; so the join tree
  after the call is the returned tree.
\<close>

fun optimize_exist_deep :: "node \<Rightarrow> nat \<Rightarrow> (node \<times> nat) res" where
  "optimize_exist_deep (Query q rtable jointree targetList) i =
     bnd (mutator_exist_deep jointree i) (\<lambda>(jointree, i). Inr (Query q rtable jointree targetList, i))"
| "optimize_exist_deep Null i = Inl Segv"
| "optimize_exist_deep _ i = Inl BadAccess"

declare create_connexe.simps [simp del] mutator_conn.simps [simp del] mutator_target.simps [simp del]
  mutator_varquals.simps [simp del] mutator_varTarget.simps [simp del] mutator_exist_deep.simps [simp del]

end
