(* ===== verification/Infed_Hooks.thy ===== *)
theory Infed_Hooks
  imports Null_Walker Null_Mutator Self_Optimize Split_Optimize Exist_Optimize
begin

section \<open>The entry points of the two plug-ins\<close>

text \<open>
  \<open>_PG_init\<close> and \<open>_PG_fini\<close> install and remove the hook; the hooks compose the passes. Every run
  starts with a fresh memory for its lists; the counter of \<open>self_optimize.c\<close> lives as long as the
  process and is passed on. The log messages of the Codd hook read the condition of the query, so a
  query without a join tree makes them dereference a null pointer.
\<close>

record 'h hooks =
  post_parse_analyze_hook :: "'h option"
  prev_post_parse_analyze_hook :: "'h option"

definition PG_init :: "'h \<Rightarrow> 'h hooks \<Rightarrow> 'h hooks" where
  "PG_init my_post_parse_analyse_hook g =
     (let g = g\<lparr>prev_post_parse_analyze_hook := post_parse_analyze_hook g\<rparr>
      in g\<lparr>post_parse_analyze_hook := Some my_post_parse_analyse_hook\<rparr>)"

definition PG_fini :: "'h hooks \<Rightarrow> 'h hooks" where
  "PG_fini g = g\<lparr>post_parse_analyze_hook := prev_post_parse_analyze_hook g\<rparr>"

definition codd_hook :: "pg_catalog \<Rightarrow> nat \<Rightarrow> node \<Rightarrow> nat \<Rightarrow> (node \<times> nat) res" where
  "codd_hook cat fuel query i =
     bnd (codd_walker cat query (make_context_walker_set_constraint empty_mem)) (\<lambda>(_, ctx).
     bnd (make_context_modifier True ctx) (\<lambda>ctx_m.
     bnd (codd_mutator query ctx_m) (\<lambda>(query, _).
     bnd (optimize_self_constraint_deep query i) (\<lambda>(query, i).
     bnd (query_quals query) (\<lambda>_.
     bnd (optimize_split_deep fuel query) (\<lambda>query.
     bnd (query_quals query) (\<lambda>_.
     optimize_exist_deep query i)))))))"

definition marked_hook :: "pg_catalog \<Rightarrow> node \<Rightarrow> node res" where
  "marked_hook cat query =
     bnd (marked_walker cat query (make_context_walker_set_constraint empty_mem)) (\<lambda>(_, ctx).
     bnd (make_context_modifier True ctx) (\<lambda>ctx_m.
     bnd (marked_mutator query ctx_m) (\<lambda>(query, ctx_m).
     bnd (free_context_modifier ctx_m) (\<lambda>m.
     bnd (free_context_walker_set_constraint (ctx\<lparr>wmem := m\<rparr>)) (\<lambda>_.
     Inr query)))))"

end
