(* ===== verification/Heap_Order.thy ===== *)
theory Heap_Order
  imports True_Var
begin

section \<open>Reading a memory that only grows\<close>

text \<open>
  The second pass reads the lists of the first one and writes only to chunks it has just allocated.
  \<open>heap_le m m'\<close> says that \<open>m'\<close> holds everything \<open>m\<close> holds; whatever can be read in \<open>m\<close> can then be
  read in \<open>m'\<close>, with the same result.
\<close>

definition heap_le :: "'o mem \<Rightarrow> 'o mem \<Rightarrow> bool" where
  "heap_le m m' \<longleftrightarrow> (\<forall>p x. heap m p = Some x \<longrightarrow> heap m' p = Some x)"

lemma heap_le_refl [simp]: "heap_le m m"
  by (simp add: heap_le_def)

lemma heap_le_trans: "heap_le m1 m2 \<Longrightarrow> heap_le m2 m3 \<Longrightarrow> heap_le m1 m3"
  by (simp add: heap_le_def)

lemma agree_heap_le: "mem_ok m \<Longrightarrow> agree {} m m' \<Longrightarrow> heap_le m m'"
  unfolding heap_le_def by (auto intro: agree_heap)

lemma load_le:
  assumes "heap_le m m'"
  shows "load_list m p = Inr h \<Longrightarrow> load_list m' p = Inr h"
    and "load_cell m p = Inr c \<Longrightarrow> load_cell m' p = Inr c"
    and "load_obj m p = Inr x \<Longrightarrow> load_obj m' p = Inr x"
  using assms by (auto simp: heap_le_def load_list_iff load_cell_iff load_obj_iff)

lemma nth_loop_le: "heap_le m m' \<Longrightarrow> nth_loop n m p = Inr q \<Longrightarrow> nth_loop n m' p = Inr q"
  by (induction n arbitrary: p) (auto simp: bnd_eq_Inr_iff dest: load_le(2))

lemma list_nth_le:
  assumes "heap_le m m'" and "list_nth m l n = Inr p"
  shows "list_nth m' l n = Inr p"
proof -
  from assms(2) obtain h c cl where h: "load_list m l = Inr h"
    and c: "(if n = llength h - 1 then Inr (ltail h) else nth_loop (nat n) m (lhead h)) = Inr c"
    and cl: "load_cell m c = Inr cl" "as_ptr (cdata cl) = Inr p"
    by (auto simp: list_nth_def list_nth_cell_def lfirst_def bnd_eq_Inr_iff)
  have "(if n = llength h - 1 then Inr (ltail h) else nth_loop (nat n) m' (lhead h)) = Inr c"
    using c nth_loop_le [OF assms(1)] by (simp split: if_splits)
  then show ?thesis
    using load_le(1) [OF assms(1) h] load_le(2) [OF assms(1) cl(1)] cl(2)
    by (simp add: list_nth_def list_nth_cell_def lfirst_def)
qed

lemma levels_up_le: "heap_le m m' \<Longrightarrow> levels_up i m l = Inr p \<Longrightarrow> levels_up i m' l = Inr p"
  by (induction i arbitrary: l) (auto simp: bnd_eq_Inr_iff dest: list_nth_le)

lemma getTrueVar_le:
  assumes "heap_le m m'" and "getTrueVar m l v = Inr p"
  shows "getTrueVar m' l v = Inr p"
proof -
  from assms(2) obtain t r where "levels_up (varlevelsup v) m l = Inr t"
    "list_nth m t (int_of_index (varno v)) = Inr r" "list_nth m r (varattno v - 1) = Inr p"
    by (auto simp: getTrueVar_def bnd_eq_Inr_iff)
  with levels_up_le [OF assms(1)] list_nth_le [OF assms(1)] show ?thesis
    by (simp add: getTrueVar_def)
qed

lemma seg_le: "heap_le m m' \<Longrightarrow> seg m p cs q \<Longrightarrow> seg m' p cs q"
  by (induction cs arbitrary: p) (auto simp: heap_le_def)

lemma list_rep_le: "heap_le m m' \<Longrightarrow> list_rep m l tag cs \<Longrightarrow> list_rep m' l tag cs"
  using seg_le [of m m' "fst (hd cs)" cs 0] by (auto simp: list_rep_def heap_le_def split: if_splits)

subsection \<open>Lists of columns\<close>

text \<open>
  A column is identified the way \<open>isInListTrueVar\<close> does it, by attribute number and relation.
  \<open>attr_list m l A\<close> says that \<open>l\<close> is a list of \<open>Var\<close> objects whose columns are all in \<open>A\<close>, and
  \<open>attr_lists m l A n\<close> that \<open>l\<close> is a list of \<open>n\<close> such lists.
\<close>

type_synonym column = "int \<times> nat"

definition attr :: "pg_var \<Rightarrow> column" where
  "attr v = (varattno v, vartype v)"

definition is_attr :: "vmem \<Rightarrow> column set \<Rightarrow> lval \<Rightarrow> bool" where
  "is_attr m A d \<longleftrightarrow> (\<exists>p tv. d = Ptr p \<and> load_obj m p = Inr tv \<and> attr tv \<in> A)"

definition attr_list :: "vmem \<Rightarrow> nat \<Rightarrow> column set \<Rightarrow> bool" where
  "attr_list m l A \<longleftrightarrow> (\<exists>cs. list_rep m l T_List cs \<and> (\<forall>d \<in> snd ` set cs. is_attr m A d))"

definition attr_lists :: "vmem \<Rightarrow> nat \<Rightarrow> column set \<Rightarrow> nat \<Rightarrow> bool" where
  "attr_lists m l A n \<longleftrightarrow>
     (\<exists>cs. list_rep m l T_List cs \<and> length cs = n \<and>
           (\<forall>d \<in> snd ` set cs. \<exists>p. d = Ptr p \<and> attr_list m p A))"

lemma is_attr_le: "heap_le m m' \<Longrightarrow> is_attr m A d \<Longrightarrow> is_attr m' A d"
  using load_le(3) [of m m'] by (auto simp: is_attr_def)

lemma attr_list_le:
  assumes "heap_le m m'" and "attr_list m l A"
  shows "attr_list m' l A"
proof -
  from assms(2) obtain cs where "list_rep m l T_List cs" "\<forall>d \<in> snd ` set cs. is_attr m A d"
    by (auto simp: attr_list_def)
  then have "list_rep m' l T_List cs" "\<forall>d \<in> snd ` set cs. is_attr m' A d"
    using list_rep_le [OF assms(1)] is_attr_le [OF assms(1)] by simp_all
  then show ?thesis unfolding attr_list_def by blast
qed

lemma attr_lists_le:
  assumes "heap_le m m'" and "attr_lists m l A n"
  shows "attr_lists m' l A n"
proof -
  from assms(2) obtain cs where "list_rep m l T_List cs" "length cs = n"
    and p: "\<forall>d \<in> snd ` set cs. \<exists>p. d = Ptr p \<and> attr_list m p A"
    by (auto simp: attr_lists_def)
  moreover have "\<forall>d \<in> snd ` set cs. \<exists>p. d = Ptr p \<and> attr_list m' p A"
    using p attr_list_le [OF assms(1)] by blast
  ultimately show ?thesis
    unfolding attr_lists_def using list_rep_le [OF assms(1)] by blast
qed

lemma attr_list_NIL [simp]: "attr_list m 0 A"
  by (simp add: attr_list_def)

lemma isInListTrueVar_attr:
  assumes "mem_ok m" and "attr_list m l A" and "load_obj m rv = Inr tv"
  shows "\<exists>b. isInListTrueVar m l rv = Inr b \<and> (b \<longrightarrow> attr tv \<in> A)"
proof -
  from assms(2) obtain cs where cs: "list_rep m l T_List cs" "\<forall>d \<in> snd ` set cs. is_attr m A d"
    by (auto simp: attr_list_def)
  define T where "T d = (\<exists>p t. d = Ptr p \<and> load_obj m p = Inr t \<and> attr t = attr tv)" for d
  have "list_member_with m (\<lambda>d. bnd (as_ptr d) (\<lambda>t. same_attr m t rv)) l = Inr (\<exists>d \<in> snd ` set cs. T d)"
    by (rule list_member_with_rep [OF assms(1) cs(1)])
       (use cs(2) assms(3) in \<open>auto simp: is_attr_def same_attr_def T_def attr_def\<close>)
  moreover have "attr tv \<in> A" if "d \<in> snd ` set cs" "T d" for d
  proof -
    from that(2) obtain p t where "d = Ptr p" "load_obj m p = Inr t" "attr t = attr tv"
      unfolding T_def by blast
    moreover have "is_attr m A d" using cs(2) that(1) by blast
    ultimately show ?thesis by (auto simp: is_attr_def)
  qed
  ultimately have "\<exists>b. list_member_with m (\<lambda>d. bnd (as_ptr d) (\<lambda>t. same_attr m t rv)) l = Inr b \<and> (b \<longrightarrow> attr tv \<in> A)"
    by blast
  then show ?thesis
    unfolding isInListTrueVar_def by (cases "l = 0") auto
qed

lemma attr_lists_nth:
  assumes "attr_lists m l A n" and "0 < n" and "i < int n"
  shows "\<exists>p. list_nth m l i = Inr p \<and> attr_list m p A"
proof -
  from assms(1) obtain cs where cs: "list_rep m l T_List cs" "length cs = n"
    "\<forall>d \<in> snd ` set cs. \<exists>p. d = Ptr p \<and> attr_list m p A"
    by (auto simp: attr_lists_def)
  have "l \<noteq> 0" using cs(1,2) assms(2) by (auto simp: list_rep_def split: if_splits)
  have "snd (hd cs) \<in> snd ` set cs" using cs(2) assms(2) by (cases cs) auto
  moreover have "snd (cs ! nat i) \<in> snd ` set cs" if "0 \<le> i"
    using that assms(3) cs(2) by simp
  ultimately obtain d where d: "list_nth m l i = as_ptr d" "d \<in> snd ` set cs"
    using list_nth_rep(1) [OF cs(1), of i] list_nth_out_of_range(1) [OF cs(1) \<open>l \<noteq> 0\<close>, of i] assms(3) cs(2)
    by (cases "i < 0") simp_all
  then obtain p where "d = Ptr p" "attr_list m p A" using cs(3) by blast
  then show ?thesis using d(1) by simp
qed

lemma attr_lists_load: "attr_lists m l A n \<Longrightarrow> 0 < n \<Longrightarrow> \<exists>h. load_list m l = Inr h \<and> llength h = int n"
  unfolding attr_lists_def by (cases "l = 0") (auto simp: list_rep_load)

text \<open>Copying a list and concatenating another to the copy, as the mutators do.\<close>

lemma copy_concat_attr:
  assumes ok: "mem_ok m" and l: "attr_list m l A" and p: "attr_list m p A"
  shows "\<exists>l1 m1 l2 m2. list_copy m l = Inr (l1, m1) \<and> mem_ok m1 \<and> heap_le m m1 \<and>
           list_concat m1 l1 p = Inr (l2, m2) \<and> mem_ok m2 \<and> heap_le m m2 \<and> attr_list m2 l2 A"
proof -
  from l obtain cs where cs: "list_rep m l T_List cs" "\<forall>d \<in> snd ` set cs. is_attr m A d"
    by (auto simp: attr_list_def)
  from p obtain ps where ps: "list_rep m p T_List ps" "\<forall>d \<in> snd ` set ps. is_attr m A d"
    by (auto simp: attr_list_def)
  from list_copy_yields [OF ok cs(1)] obtain l1 m1 cs1 where
    c: "list_copy m l = Inr (l1, m1)" "mem_ok m1" "agree {} m m1" "list_rep m1 l1 T_List cs1"
      "map snd cs1 = map snd cs" "footprint l1 cs1 \<subseteq> {} \<union> {a. brk m \<le> a}"
    by (rule yieldsE)
  note le1 = agree_heap_le [OF ok c(3)]
  have ps1: "list_rep m1 p T_List ps" by (rule list_rep_le [OF le1 ps(1)])
  have im1: "snd ` set cs1 = snd ` set cs" using arg_cong [OF c(5), of set] by simp
  have "footprint p ps \<subseteq> {a. a < brk m}"
    using list_rep_allocated [OF ps(1)] mem_ok_brk [OF ok] by auto
  with c(6) have dis: "footprint l1 cs1 \<inter> footprint p ps = {}" by fastforce
  show ?thesis
  proof (cases "l1 = 0 \<or> p = 0")
    case True
    have "\<forall>d \<in> snd ` set cs1. is_attr m1 A d"
      unfolding im1 using cs(2) is_attr_le [OF le1] by blast
    then have "attr_list m1 l1 A" using c(4) unfolding attr_list_def by blast
    then show ?thesis
      using True c(1,2) le1 attr_list_le [OF le1 p] by (auto simp: list_concat_def)
  next
    case False
    then have ne: "l1 \<noteq> 0" "p \<noteq> 0" "l1 \<noteq> p" "addrs cs1 \<inter> addrs ps = {}"
      using dis by (auto simp: footprint_def)
    from list_concat_rep [OF c(2,4) ps1 ne] obtain m2 where
      m2: "list_concat m1 l1 p = Inr (l1, m2)" "mem_ok m2" "agree {l1, fst (last cs1)} m1 m2"
        "list_rep m2 l1 T_List (cs1 @ ps)"
      by blast
    have "cs1 \<noteq> []" using c(4) ne(1) by (simp add: list_rep_def)
    then have "fst (last cs1) \<in> addrs cs1" by (intro imageI last_in_set)
    then have "{l1, fst (last cs1)} \<subseteq> {} \<union> {a. brk m \<le> a}"
      using c(6) ne(1) unfolding footprint_def by auto
    then have le2: "heap_le m m2" using agree_heap_le [OF ok agree_trans_new [OF c(3) m2(3)]] by blast
    have "snd ` set (cs1 @ ps) = snd ` set cs \<union> snd ` set ps"
      by (simp only: set_append image_Un im1)
    then have "\<forall>d \<in> snd ` set (cs1 @ ps). is_attr m2 A d"
      using cs(2) ps(2) is_attr_le [OF le2] by blast
    then have "attr_list m2 l1 A" using m2(4) unfolding attr_list_def by blast
    then show ?thesis using c(1,2) m2(1,2) le1 le2 by blast
  qed
qed

end
