(* ===== verification/Exec_Qual.thy ===== *)
theory Exec_Qual
  imports Pg_NodeFuncs
begin

section \<open>Evaluation of conditions by the executor (\<open>execQual.c\<close>)\<close>

text \<open>
  What the rewritten conditions mean: three-valued evaluation as \<open>ExecEvalNot\<close>, \<open>ExecEvalOr\<close>,
  \<open>ExecEvalAnd\<close>, \<open>ExecEvalNullTest\<close> and \<open>ExecQual\<close> do it. A result is \<open>None\<close> when the executor
  sets \<open>isNull\<close>, and \<open>Some d\<close> with the datum \<open>d\<close> otherwise. The values of variables, the functions
  behind the operators and the value of every other expression (sub-queries among them) are
  parameters, in the record \<open>econtext\<close>.
\<close>

type_synonym datum = int

record econtext =
  var_value :: "nat \<Rightarrow> nat \<Rightarrow> int \<Rightarrow> datum option"
  op_function :: "nat \<Rightarrow> datum list \<Rightarrow> datum option"
  other_value :: "node \<Rightarrow> datum option"

definition BoolGetDatum :: "bool \<Rightarrow> datum" where
  "BoolGetDatum b = (if b then 1 else 0)"

definition DatumGetBool :: "datum \<Rightarrow> bool" where
  "DatumGetBool d \<longleftrightarrow> d \<noteq> 0"

text \<open>
  The comparison operators are strict functions: with a null argument the function is not called
  and the result is null.
\<close>

definition ExecMakeFunctionResultNoSets :: "(datum list \<Rightarrow> datum option) \<Rightarrow> datum option list \<Rightarrow> datum option" where
  "ExecMakeFunctionResultNoSets fn args = (if None \<in> set args then None else fn (map the args))"

definition ExecEvalNot :: "datum option \<Rightarrow> datum option" where
  "ExecEvalNot expr_value =
     (case expr_value of None \<Rightarrow> None | Some d \<Rightarrow> Some (BoolGetDatum (\<not> DatumGetBool d)))"

fun ExecEvalOr :: "bool \<Rightarrow> datum option list \<Rightarrow> datum option" where
  "ExecEvalOr AnyNull [] = (if AnyNull then None else Some (BoolGetDatum False))"
| "ExecEvalOr AnyNull (clause # clauses) =
     (case clause of
        None \<Rightarrow> ExecEvalOr True clauses
      | Some d \<Rightarrow> if DatumGetBool d then Some d else ExecEvalOr AnyNull clauses)"

fun ExecEvalAnd :: "bool \<Rightarrow> datum option list \<Rightarrow> datum option" where
  "ExecEvalAnd AnyNull [] = (if AnyNull then None else Some (BoolGetDatum (\<not> AnyNull)))"
| "ExecEvalAnd AnyNull (clause # clauses) =
     (case clause of
        None \<Rightarrow> ExecEvalAnd True clauses
      | Some d \<Rightarrow> if \<not> DatumGetBool d then Some d else ExecEvalAnd AnyNull clauses)"

definition ExecEvalNullTest :: "NullTestType \<Rightarrow> datum option \<Rightarrow> datum option" where
  "ExecEvalNullTest t arg =
     Some (BoolGetDatum (case t of IS_NULL \<Rightarrow> arg = None | IS_NOT_NULL \<Rightarrow> arg \<noteq> None))"

function ExecEvalExpr :: "econtext \<Rightarrow> node \<Rightarrow> datum option" where
  "ExecEvalExpr ec node =
     (case node of
        Var v \<Rightarrow> var_value ec (varlevelsup v) (varno v) (varattno v)
      | Const c \<Rightarrow> if constisnull c then None else Some (constvalue c)
      | OpExpr opno f args \<Rightarrow>
          ExecMakeFunctionResultNoSets (op_function ec opno) (map (ExecEvalExpr ec) args)
      | BoolExpr boolop args l \<Rightarrow>
          (case boolop of
             NOT_EXPR \<Rightarrow> (case args of [] \<Rightarrow> other_value ec node | a # as \<Rightarrow> ExecEvalNot (ExecEvalExpr ec a))
           | OR_EXPR \<Rightarrow> ExecEvalOr False (map (ExecEvalExpr ec) args)
           | AND_EXPR \<Rightarrow> ExecEvalAnd False (map (ExecEvalExpr ec) args))
      | NullTest t arg argisrow l \<Rightarrow>
          if argisrow then other_value ec node else ExecEvalNullTest t (ExecEvalExpr ec arg)
      | _ \<Rightarrow> other_value ec node)"
  by pat_completeness auto
termination
  by (relation "measure (\<lambda>(ec, n). weight n)") (auto dest: weight_elem)

fun ExecQual :: "econtext \<Rightarrow> node list \<Rightarrow> bool \<Rightarrow> bool" where
  "ExecQual ec [] resultForNull = True"
| "ExecQual ec (clause # qual) resultForNull =
     (case ExecEvalExpr ec clause of
        None \<Rightarrow> if resultForNull = False then False else ExecQual ec qual resultForNull
      | Some d \<Rightarrow> if \<not> DatumGetBool d then False else ExecQual ec qual resultForNull)"

declare ExecEvalExpr.simps [simp del]

subsection \<open>Truth values\<close>

definition is_true :: "datum option \<Rightarrow> bool" where
  "is_true r \<longleftrightarrow> (\<exists>d. r = Some d \<and> DatumGetBool d)"

definition is_false :: "datum option \<Rightarrow> bool" where
  "is_false r \<longleftrightarrow> (\<exists>d. r = Some d \<and> \<not> DatumGetBool d)"

lemma truth_cases: "is_true r \<or> is_false r \<or> r = None"
  by (cases r) (auto simp: is_true_def is_false_def)

lemma truth_simps [simp]:
  "is_true (Some d) = DatumGetBool d" "is_false (Some d) = (\<not> DatumGetBool d)"
  "\<not> is_true None" "\<not> is_false None" "DatumGetBool (BoolGetDatum b) = b"
  by (auto simp: is_true_def is_false_def DatumGetBool_def BoolGetDatum_def)

lemma not_true_and_false: "is_true r \<Longrightarrow> \<not> is_false r"
  by (auto simp: is_true_def)

lemma ExecEvalNot_truth [simp]:
  "is_true (ExecEvalNot r) = is_false r" "is_false (ExecEvalNot r) = is_true r"
  by (cases r; simp add: ExecEvalNot_def)+

lemma ExecEvalOr_true [simp]: "is_true (ExecEvalOr n rs) \<longleftrightarrow> (\<exists>r \<in> set rs. is_true r)"
  by (induction rs arbitrary: n) (auto split: option.splits)

lemma ExecEvalOr_false [simp]: "is_false (ExecEvalOr n rs) \<longleftrightarrow> \<not> n \<and> (\<forall>r \<in> set rs. is_false r)"
  by (induction rs arbitrary: n) (auto split: option.splits)

lemma ExecEvalAnd_true [simp]: "is_true (ExecEvalAnd n rs) \<longleftrightarrow> \<not> n \<and> (\<forall>r \<in> set rs. is_true r)"
  by (induction rs arbitrary: n) (auto split: option.splits)

lemma ExecEvalAnd_false [simp]: "is_false (ExecEvalAnd n rs) \<longleftrightarrow> (\<exists>r \<in> set rs. is_false r)"
  by (induction rs arbitrary: n) (auto split: option.splits)

lemma ExecEvalOr_None: "ExecEvalOr n rs = None \<Longrightarrow> n \<or> None \<in> set rs"
  by (induction rs arbitrary: n) (auto split: option.splits if_splits)

lemma ExecEvalAnd_None: "ExecEvalAnd n rs = None \<Longrightarrow> n \<or> None \<in> set rs"
  by (induction rs arbitrary: n) (auto split: option.splits if_splits)

lemma ExecEvalNullTest_truth [simp]:
  "is_true (ExecEvalNullTest IS_NULL r) \<longleftrightarrow> r = None"
  "is_false (ExecEvalNullTest IS_NULL r) \<longleftrightarrow> r \<noteq> None"
  by (auto simp: ExecEvalNullTest_def)

lemma ExecQual_false: "ExecQual ec qual False \<longleftrightarrow> (\<forall>c \<in> set qual. is_true (ExecEvalExpr ec c))"
  by (induction qual) (auto split: option.splits)

text \<open>Evaluation of the expressions the plug-ins build.\<close>

lemma eval_simps [simp]:
  "ExecEvalExpr ec (Var v) = var_value ec (varlevelsup v) (varno v) (varattno v)"
  "ExecEvalExpr ec (Const c) = (if constisnull c then None else Some (constvalue c))"
  "ExecEvalExpr ec (OpExpr opno f args) =
     ExecMakeFunctionResultNoSets (op_function ec opno) (map (ExecEvalExpr ec) args)"
  "ExecEvalExpr ec (BoolExpr NOT_EXPR (a # as) l) = ExecEvalNot (ExecEvalExpr ec a)"
  "ExecEvalExpr ec (BoolExpr OR_EXPR args l) = ExecEvalOr False (map (ExecEvalExpr ec) args)"
  "ExecEvalExpr ec (BoolExpr AND_EXPR args l) = ExecEvalAnd False (map (ExecEvalExpr ec) args)"
  "ExecEvalExpr ec (NullTest t arg False l) = ExecEvalNullTest t (ExecEvalExpr ec arg)"
  "ExecEvalExpr ec (SubLink t' f testexpr q) = other_value ec (SubLink t' f testexpr q)"
  by (simp_all add: ExecEvalExpr.simps)

lemma eval_Null [simp]: "ExecEvalExpr ec Null = other_value ec Null"
  by (simp add: ExecEvalExpr.simps)

end
