(* ===== verification/Certain_Rewrite.thy ===== *)
theory Certain_Rewrite
  imports Null_Mutator Heap_Order Exec_Qual
begin

section \<open>Rewriting for certain answers: what the two mutators share\<close>

text \<open>
  The mutators of the two plug-ins treat the connectives alike: a negation switches the polarity,
  AND and OR add the columns the first pass recorded. The locale \<open>rewriter\<close> is the interface of such
  a mutator; that it keeps the promise \<open>certain\<close> on a connective when it keeps it on the arguments is
  proved once, for both. A mutator collects constraints while it visits the arguments of a
  comparison; \<open>pend\<close> describes the constraints that may be pending.
\<close>

text \<open>The invariant of a mutator's context, relative to the memory the pass started in.\<close>

definition mctx_ok :: "(node list \<Rightarrow> bool) \<Rightarrow> column set \<Rightarrow> vmem \<Rightarrow> nat \<Rightarrow> mctx \<Rightarrow> bool" where
  "mctx_ok pend A m0 cur c \<longleftrightarrow>
     mem_ok (mmem c) \<and> heap_le m0 (mmem c) \<and> mcurrent_trueVar c = cur \<and> 0 \<le> where_i_am c \<and>
     attr_list (mmem c) (list_of_not_null_in_current c) A \<and> pend (constraint_to_add c) \<and>
     (\<exists>n > 0. attr_lists (mmem c) (mlist_list_true c) A n \<and> attr_lists (mmem c) (mlist_list_false c) A n)"

text \<open>What a run of the mutator leaves unchanged.\<close>

definition mctx_step :: "mctx \<Rightarrow> mctx \<Rightarrow> bool" where
  "mctx_step c c' \<longleftrightarrow>
     positive c' = positive c \<and> list_of_not_null_in_current c' = list_of_not_null_in_current c \<and>
     heap_le (mmem c) (mmem c')"

lemma mctx_step_trans: "mctx_step c1 c2 \<Longrightarrow> mctx_step c2 c3 \<Longrightarrow> mctx_step c1 c3"
  by (auto simp: mctx_step_def intro: heap_le_trans)

subsection \<open>Certainty\<close>

text \<open>
  \<open>ec\<close> is the tuple with nulls and \<open>ec'\<close> one of the tuples it stands for. In a positive position the
  rewritten condition may only be true if the condition holds of \<open>ec'\<close>; in a negative position it
  has to be true if the condition holds of \<open>ec'\<close>.
\<close>

definition certain :: "bool \<Rightarrow> econtext \<Rightarrow> econtext \<Rightarrow> node \<Rightarrow> node \<Rightarrow> bool" where
  "certain pos ec ec' n n' \<longleftrightarrow>
     (if pos then is_true (ExecEvalExpr ec n') \<longrightarrow> is_true (ExecEvalExpr ec' n)
      else is_true (ExecEvalExpr ec' n) \<longrightarrow> is_true (ExecEvalExpr ec n'))"

lemma certain_connective:
  assumes "list_all2 (certain pos ec ec') args ys"
  shows "certain pos ec ec' (BoolExpr AND_EXPR args l) (BoolExpr AND_EXPR ys l)"
    and "certain pos ec ec' (BoolExpr OR_EXPR args l) (BoolExpr OR_EXPR ys l)"
proof -
  have p: "list_all2 (\<lambda>x y. is_true (ExecEvalExpr ec y) \<longrightarrow> is_true (ExecEvalExpr ec' x)) args ys" if pos
    using assms that by (simp add: certain_def [abs_def])
  have n: "list_all2 (\<lambda>x y. is_true (ExecEvalExpr ec' x) \<longrightarrow> is_true (ExecEvalExpr ec y)) args ys" if "\<not> pos"
    using assms that by (simp add: certain_def [abs_def])
  show "certain pos ec ec' (BoolExpr AND_EXPR args l) (BoolExpr AND_EXPR ys l)"
    using list_all2_imp(1) [OF p] list_all2_imp'(1) [OF n] by (auto simp: certain_def)
  show "certain pos ec ec' (BoolExpr OR_EXPR args l) (BoolExpr OR_EXPR ys l)"
    using list_all2_imp(2) [OF p] list_all2_imp'(2) [OF n] by (auto simp: certain_def)
qed

subsection \<open>The columns a connective adds\<close>

lemma bool_constraints_ok:
  assumes "mctx_ok pend A m0 cur c"
  shows "\<exists>c'. bool_constraints c = Inr c' \<and> mctx_ok pend A m0 cur c' \<and> positive c' = positive c \<and>
           heap_le (mmem c) (mmem c')"
proof -
  let ?m = "mmem c"
  from assms obtain n where ok: "mem_ok ?m" and le0: "heap_le m0 ?m" and w: "0 \<le> where_i_am c"
    and l: "attr_list ?m (list_of_not_null_in_current c) A" and n: "0 < n"
    and ll: "attr_lists ?m (mlist_list_true c) A n" "attr_lists ?m (mlist_list_false c) A n"
    unfolding mctx_ok_def by blast
  let ?ll = "if positive c then mlist_list_true c else mlist_list_false c"
  have "attr_lists ?m ?ll A n" using ll by simp
  then obtain p where p: "list_nth ?m ?ll (int n - where_i_am c - 1) = Inr p" "attr_list ?m p A"
    using attr_lists_nth [OF _ n, of ?m ?ll A "int n - where_i_am c - 1"] w by auto
  obtain l1 m1 l2 m2 where c1: "list_copy ?m (list_of_not_null_in_current c) = Inr (l1, m1)" "mem_ok m1"
      "heap_le ?m m1" and c2: "list_concat m1 l1 p = Inr (l2, m2)" "mem_ok m2" "heap_le ?m m2" "attr_list m2 l2 A"
    using copy_concat_attr [OF ok l p(2)] by blast
  obtain h where h: "load_list m1 (mlist_list_true c) = Inr h" "llength h = int n"
    using attr_lists_load [OF attr_lists_le [OF c1(3) ll(1)] n] by blast
  let ?c = "c\<lparr>mmem := m2, list_of_not_null_in_current := l2, where_i_am := where_i_am c + 1\<rparr>"
  have "bool_constraints c = Inr ?c"
    unfolding bool_constraints_def using c1(1) h list_nth_le [OF c1(3) p(1)] c2(1) by (cases "positive c") simp_all
  moreover have "mctx_ok pend A m0 cur ?c"
    using assms n w c2 heap_le_trans [OF le0 c2(3)] attr_lists_le [OF c2(3) ll(1)] attr_lists_le [OF c2(3) ll(2)]
    by (auto simp: mctx_ok_def)
  ultimately show ?thesis using c2(3) by simp
qed

subsection \<open>Connectives\<close>

definition certainly ::
  "(node \<Rightarrow> mctx \<Rightarrow> (node \<times> mctx) res) \<Rightarrow> (node list \<Rightarrow> bool) \<Rightarrow> column set \<Rightarrow> vmem \<Rightarrow> nat \<Rightarrow> bool \<Rightarrow>
   econtext \<Rightarrow> econtext \<Rightarrow> node \<Rightarrow> bool" where
  "certainly mut pend A m0 cur pos ec ec' n \<longleftrightarrow>
     (\<forall>c. mctx_ok pend A m0 cur c \<longrightarrow> positive c = pos \<longrightarrow>
       (\<exists>n' c'. mut n c = Inr (n', c') \<and> mctx_ok pend A m0 cur c' \<and> mctx_step c c' \<and> certain pos ec ec' n n'))"

lemma certainlyI:
  assumes "\<And>c. mctx_ok pend A m0 cur c \<Longrightarrow> positive c = pos \<Longrightarrow>
    \<exists>n' c'. mut n c = Inr (n', c') \<and> mctx_ok pend A m0 cur c' \<and> mctx_step c c' \<and> certain pos ec ec' n n'"
  shows "certainly mut pend A m0 cur pos ec ec' n"
  unfolding certainly_def by (intro allI impI assms)

lemma certainlyE:
  assumes "certainly mut pend A m0 cur pos ec ec' n" and "mctx_ok pend A m0 cur c" and "positive c = pos"
  obtains n' c' where "mut n c = Inr (n', c')" and "mctx_ok pend A m0 cur c'" and "mctx_step c c'"
    and "certain pos ec ec' n n'"
proof -
  have "\<exists>n' c'. mut n c = Inr (n', c') \<and> mctx_ok pend A m0 cur c' \<and> mctx_step c c' \<and> certain pos ec ec' n n'"
    using assms unfolding certainly_def by simp
  then show thesis by (elim exE conjE) (rule that)
qed

locale rewriter =
  fixes mut :: "node \<Rightarrow> mctx \<Rightarrow> (node \<times> mctx) res"
    and pend :: "node list \<Rightarrow> bool"
  assumes mut_Null: "mut Null c = Inr (Null, c)"
    and mut_TList: "mut (TList xs) c = expression_tree_mutator mut (TList xs) c"
    and mut_not: "mut (BoolExpr NOT_EXPR args l) c =
      bnd (expression_tree_mutator mut (BoolExpr NOT_EXPR args l) (c\<lparr>positive := \<not> positive c\<rparr>))
        (\<lambda>(retour, c). Inr (retour, c\<lparr>positive := \<not> positive c\<rparr>))"
    and mut_bool: "b \<noteq> NOT_EXPR \<Longrightarrow> mut (BoolExpr b args l) c =
      bnd (bool_constraints c) (\<lambda>c1.
      bnd (expression_tree_mutator mut (BoolExpr b args l) c1) (\<lambda>(retour, c2).
      Inr (retour, c2\<lparr>list_of_not_null_in_current := list_of_not_null_in_current c\<rparr>)))"
begin

lemmas mut_list = mutate_list_elems [of mut, OF mut_Null mut_TList]

lemma elems_certain:
  assumes "\<forall>a \<in> set args. certainly mut pend A m0 cur pos ec ec' a" and "mctx_ok pend A m0 cur c" and "positive c = pos"
  shows "\<exists>ys c'. mutate_elems mut args c = Inr (ys, c') \<and> mctx_ok pend A m0 cur c' \<and> mctx_step c c' \<and>
           list_all2 (certain pos ec ec') args ys"
  using assms
proof (induction args arbitrary: c)
  case Nil
  then show ?case by (simp add: mctx_step_def)
next
  case (Cons a args)
  have "certainly mut pend A m0 cur pos ec ec' a" using Cons.prems(1) by simp
  then obtain y c1 where y: "mut a c = Inr (y, c1)" "mctx_ok pend A m0 cur c1" "mctx_step c c1" "certain pos ec ec' a y"
    using Cons.prems(2,3) by (rule certainlyE)
  moreover have "positive c1 = pos" using y(3) Cons.prems(3) by (simp add: mctx_step_def)
  with Cons.IH [of c1] Cons.prems(1) y(2) obtain ys c2 where
    "mutate_elems mut args c1 = Inr (ys, c2)" "mctx_ok pend A m0 cur c2" "mctx_step c1 c2"
    "list_all2 (certain pos ec ec') args ys"
    by auto
  ultimately show ?case using mctx_step_trans [of c c1 c2] by auto
qed

lemma connective_certain:
  assumes "\<forall>a \<in> set args. certainly mut pend A m0 cur pos ec ec' a" and "b \<noteq> NOT_EXPR"
  shows "certainly mut pend A m0 cur pos ec ec' (BoolExpr b args l)"
proof (rule certainlyI)
  fix c assume c: "mctx_ok pend A m0 cur c" "positive c = pos"
  from bool_constraints_ok [OF c(1)] obtain c1 where
    c1: "bool_constraints c = Inr c1" "mctx_ok pend A m0 cur c1" "positive c1 = positive c" "heap_le (mmem c) (mmem c1)"
    by blast
  from elems_certain [OF assms(1) c1(2)] c1(3) c(2) obtain ys c2 where
    ys: "mutate_elems mut args c1 = Inr (ys, c2)" "mctx_ok pend A m0 cur c2" "mctx_step c1 c2"
      "list_all2 (certain pos ec ec') args ys"
    by auto
  let ?c = "c2\<lparr>list_of_not_null_in_current := list_of_not_null_in_current c\<rparr>"
  have le: "heap_le (mmem c) (mmem c2)" using c1(4) ys(3) by (auto simp: mctx_step_def intro: heap_le_trans)
  have "mut (BoolExpr b args l) c = Inr (BoolExpr b ys l, ?c)"
    using assms(2) c1(1) ys(1) by (simp add: mut_bool expression_tree_mutator_simps mut_list)
  moreover have "mctx_ok pend A m0 cur ?c"
    using ys(2) attr_list_le [OF le] c(1) by (simp add: mctx_ok_def)
  moreover have "mctx_step c ?c" using le c1(3) ys(3) by (simp add: mctx_step_def)
  moreover have "certain pos ec ec' (BoolExpr b args l) (BoolExpr b ys l)"
    using certain_connective [OF ys(4)] assms(2) by (cases b) simp_all
  ultimately show "\<exists>n' c'. mut (BoolExpr b args l) c = Inr (n', c') \<and> mctx_ok pend A m0 cur c' \<and>
      mctx_step c c' \<and> certain pos ec ec' (BoolExpr b args l) n'" by blast
qed

lemma negation_certain:
  assumes "certainly mut pend A m0 cur False ec ec' a" and "ExecEvalExpr ec' a \<noteq> None"
  shows "certainly mut pend A m0 cur True ec ec' (BoolExpr NOT_EXPR [a] l)"
proof (rule certainlyI)
  fix c assume c: "mctx_ok pend A m0 cur c" "positive c = True"
  have "mctx_ok pend A m0 cur (c\<lparr>positive := False\<rparr>)" using c(1) by (simp add: mctx_ok_def)
  with assms(1) obtain y c1 where y: "mut a (c\<lparr>positive := False\<rparr>) = Inr (y, c1)" "mctx_ok pend A m0 cur c1"
    "mctx_step (c\<lparr>positive := False\<rparr>) c1" "certain False ec ec' a y"
    by (rule certainlyE) simp
  let ?c = "c1\<lparr>positive := True\<rparr>"
  have "mut (BoolExpr NOT_EXPR [a] l) c = Inr (BoolExpr NOT_EXPR [y] l, ?c)"
    using c(2) y(1,3) by (simp add: mut_not expression_tree_mutator_simps mut_list mctx_step_def)
  moreover have "mctx_ok pend A m0 cur ?c" "mctx_step c ?c"
    using y(2,3) c(2) by (simp_all add: mctx_ok_def mctx_step_def)
  moreover have "is_false (ExecEvalExpr ec' a) \<or> is_true (ExecEvalExpr ec' a)"
    using assms(2) truth_cases [of "ExecEvalExpr ec' a"] by auto
  then have "certain True ec ec' (BoolExpr NOT_EXPR [a] l) (BoolExpr NOT_EXPR [y] l)"
    using y(4) not_true_and_false by (auto simp: certain_def)
  ultimately show "\<exists>n' c'. mut (BoolExpr NOT_EXPR [a] l) c = Inr (n', c') \<and> mctx_ok pend A m0 cur c' \<and>
      mctx_step c c' \<and> certain True ec ec' (BoolExpr NOT_EXPR [a] l) n'" by blast
qed

end

subsection \<open>A context\<close>

text \<open>
  A context for instances of the theorems: the scope of a query over one relation with Oid 100 and
  one column, and no column known to be non-null.
\<close>

definition sample_mem :: vmem where
  "sample_mem = \<lparr>heap = [1 \<mapsto> Obj (zero_var\<lparr>varattno := 1, vartype := 100\<rparr>),
     2 \<mapsto> ListHdr \<lparr>ltype = T_List, llength = 1, lhead = 3, ltail = 3\<rparr>,
     3 \<mapsto> ListCell \<lparr>cdata = Ptr 1, cnext = 0\<rparr>,
     4 \<mapsto> ListHdr \<lparr>ltype = T_List, llength = 2, lhead = 5, ltail = 6\<rparr>,
     5 \<mapsto> ListCell \<lparr>cdata = Ptr 0, cnext = 6\<rparr>,
     6 \<mapsto> ListCell \<lparr>cdata = Ptr 2, cnext = 0\<rparr>,
     7 \<mapsto> ListHdr \<lparr>ltype = T_List, llength = 1, lhead = 8, ltail = 8\<rparr>,
     8 \<mapsto> ListCell \<lparr>cdata = Ptr 0, cnext = 0\<rparr>], brk = 9\<rparr>"

definition sample_mctx :: "bool \<Rightarrow> mctx" where
  "sample_mctx pos =
     \<lparr>mmem = sample_mem, positive = pos, mready = False, constraint_to_add = [], mtrueVars = 0,
      mcurrent_trueVar = 4, list_of_not_null_in_current = 0, mlist_list_true = 7, mlist_list_false = 7,
      where_i_am = 0, where_i_am_querry = 0\<rparr>"

definition sample_var :: pg_var where
  "sample_var = zero_var\<lparr>varno := 1, varattno := 1\<rparr>"

lemma sample_mctx_ok: "pend [] \<Longrightarrow> mctx_ok pend {} sample_mem 4 (sample_mctx pos)"
proof -
  assume "pend []"
  have "list_rep sample_mem 7 T_List [(8, Ptr 0)]"
    by (simp add: list_rep_def sample_mem_def)
  then have "attr_lists sample_mem 7 {} 1"
    unfolding attr_lists_def by (intro exI [of _ "[(8, Ptr 0)]"]) simp
  moreover have "mem_ok sample_mem" by (simp add: mem_ok_def sample_mem_def)
  ultimately show ?thesis
    using \<open>pend []\<close> by (auto simp: mctx_ok_def sample_mctx_def)
qed

end
