(* ===== verification/Codd_Certain.thy ===== *)
theory Codd_Certain
  imports Certain_Rewrite
begin

section \<open>What the Codd mutator guarantees: certain answers\<close>

text \<open>
  A tuple with nulls stands for all its completions, the tuples in which every null is replaced by
  some value. The rewriting is right when a condition in a positive position that is true after
  rewriting holds in every completion, and when a condition under a negation that holds in some
  completion is true after rewriting: then a \<open>NOT EXISTS\<close> keeps a tuple only if it has to. The
  conditions are Boolean combinations of comparisons of columns and constants, \<open>codd_cond\<close>; under a
  negation only the operators the mutator knows are allowed, and no further negation.
\<close>

definition completes :: "econtext \<Rightarrow> econtext \<Rightarrow> bool" where
  "completes ec ec' \<longleftrightarrow>
     (\<forall>l n a d. var_value ec l n a = Some d \<longrightarrow> var_value ec' l n a = Some d) \<and>
     (\<forall>l n a. var_value ec' l n a \<noteq> None) \<and>
     op_function ec' = op_function ec \<and> (\<forall>opno ds. op_function ec opno ds \<noteq> None)"

fun simple_arg :: "(pg_var \<Rightarrow> bool) \<Rightarrow> node \<Rightarrow> bool" where
  "simple_arg P (Var v) \<longleftrightarrow> P v"
| "simple_arg P (Const c) \<longleftrightarrow> \<not> constisnull c"
| "simple_arg P _ \<longleftrightarrow> False"

fun codd_cond :: "(pg_var \<Rightarrow> bool) \<Rightarrow> bool \<Rightarrow> node \<Rightarrow> bool" where
  "codd_cond P pos (OpExpr opno f args) \<longleftrightarrow>
     (\<forall>a \<in> set args. simple_arg P a) \<and> (pos \<or> opno \<in> set codd_ops)"
| "codd_cond P pos (BoolExpr NOT_EXPR [a] l) \<longleftrightarrow> pos \<and> codd_cond P False a"
| "codd_cond P pos (BoolExpr AND_EXPR args l) \<longleftrightarrow> (\<forall>a \<in> set args. codd_cond P pos a)"
| "codd_cond P pos (BoolExpr OR_EXPR args l) \<longleftrightarrow> (\<forall>a \<in> set args. codd_cond P pos a)"
| "codd_cond P pos _ \<longleftrightarrow> False"

text \<open>
  A variable is \<open>known\<close> when the first pass has an object for its column, and the column is not
  null if it is in the set \<open>A\<close> of columns that the lists of the context speak about.
\<close>

definition known :: "column set \<Rightarrow> econtext \<Rightarrow> vmem \<Rightarrow> nat \<Rightarrow> pg_var \<Rightarrow> bool" where
  "known A ec m cur v \<longleftrightarrow>
     (\<exists>rv tv. getTrueVar m cur v = Inr rv \<and> load_obj m rv = Inr tv \<and>
        (attr tv \<in> A \<longrightarrow> var_value ec (varlevelsup v) (varno v) (varattno v) \<noteq> None))"

definition null_tests :: "node list \<Rightarrow> bool" where
  "null_tests ts \<longleftrightarrow> (\<forall>t \<in> set ts. \<exists>v. t = NullTest IS_NULL (Var v) False (-1))"

subsection \<open>Evaluation under a completion\<close>

lemma eval_simple_complete:
  assumes "completes ec ec'" and "simple_arg P a"
  shows "ExecEvalExpr ec' a \<noteq> None" and "ExecEvalExpr ec a = Some d \<Longrightarrow> ExecEvalExpr ec' a = Some d"
  using assms by (cases a; auto simp: completes_def)+

lemma eval_op_complete:
  assumes "completes ec ec'" and "\<forall>a \<in> set args. simple_arg P a"
  shows "ExecEvalExpr ec' (OpExpr opno f args) \<noteq> None"
    and "(\<forall>a \<in> set args. ExecEvalExpr ec a \<noteq> None) \<Longrightarrow>
         ExecEvalExpr ec' (OpExpr opno f args) = ExecEvalExpr ec (OpExpr opno f args)"
    and "ExecEvalExpr ec (OpExpr opno f args) \<noteq> None \<Longrightarrow> \<forall>a \<in> set args. ExecEvalExpr ec a \<noteq> None"
proof -
  have "None \<notin> set (map (ExecEvalExpr ec') args)"
    using assms eval_simple_complete(1) by force
  then show "ExecEvalExpr ec' (OpExpr opno f args) \<noteq> None"
    using assms(1) by (simp add: ExecMakeFunctionResultNoSets_def completes_def)
  show "ExecEvalExpr ec' (OpExpr opno f args) = ExecEvalExpr ec (OpExpr opno f args)"
    if "\<forall>a \<in> set args. ExecEvalExpr ec a \<noteq> None"
  proof -
    have "map (ExecEvalExpr ec') args = map (ExecEvalExpr ec) args"
      using that eval_simple_complete(2) [OF assms(1)] assms(2) by fastforce
    moreover have "op_function ec' = op_function ec"
      using assms(1) by (simp add: completes_def)
    ultimately show ?thesis
      by (simp only: eval_simps(3))
  qed
  show "\<forall>a \<in> set args. ExecEvalExpr ec a \<noteq> None" if "ExecEvalExpr ec (OpExpr opno f args) \<noteq> None"
    using that by (force simp: ExecMakeFunctionResultNoSets_def split: if_splits)
qed

lemma eval_cond_complete:
  assumes "completes ec ec'"
  shows "codd_cond P pos n \<Longrightarrow> ExecEvalExpr ec' n \<noteq> None"
proof (induction P pos n rule: codd_cond.induct)
  case (1 P pos opno f args)
  then have "\<forall>a \<in> set args. simple_arg P a" by simp
  then show ?case by (rule eval_op_complete(1) [OF assms])
next
  case (2 P pos a l)
  then show ?case by (auto simp: ExecEvalNot_def split: option.splits)
next
  case (3 P pos args l)
  then have "None \<notin> set (map (ExecEvalExpr ec') args)" by force
  then show ?case using ExecEvalAnd_None [of False "map (ExecEvalExpr ec') args"] unfolding eval_simps by blast
next
  case (4 P pos args l)
  then have "None \<notin> set (map (ExecEvalExpr ec') args)" by force
  then show ?case using ExecEvalOr_None [of False "map (ExecEvalExpr ec') args"] unfolding eval_simps by blast
qed simp_all

subsection \<open>Comparisons\<close>

lemma codd_mutator_simps:
  "codd_mutator Null c = Inr (Null, c)"
  "codd_mutator (TList xs) c = expression_tree_mutator codd_mutator (TList xs) c"
  "codd_mutator (Const k) c = Inr (Const k, c)"
  "codd_mutator (Var v) c = (if mready c then null_check v c else Inr (Var v, c))"
  by (simp_all add: codd_mutator.simps [where node = Null] codd_mutator.simps [where node = "TList xs"]
      codd_mutator.simps [where node = "Const k"] codd_mutator.simps [where node = "Var v"]
      expression_tree_mutator_simps)

lemmas codd_mutate_list = mutate_list_elems [of codd_mutator, OF codd_mutator_simps(1,2)]

lemma mctx_ok_pending:
  "mctx_ok null_tests A m0 cur c \<Longrightarrow> null_tests K \<Longrightarrow> mctx_ok null_tests A m0 cur (c\<lparr>constraint_to_add := K\<rparr>)"
  by (simp add: mctx_ok_def)

lemma null_tests_simps [simp]:
  "null_tests []" "null_tests (ts @ us) \<longleftrightarrow> null_tests ts \<and> null_tests us"
  "null_tests [NullTest IS_NULL (Var v) False (-1)]"
  by (auto simp: null_tests_def)

lemma null_check_known:
  assumes "known A ec m0 cur v" and "mctx_ok null_tests A m0 cur c"
  shows "null_check v c = Inr (Var v, c) \<and> ExecEvalExpr ec (Var v) \<noteq> None \<or>
         null_check v c = Inr (Var (v\<lparr>vlocation := -1\<rparr>), c\<lparr>constraint_to_add :=
           constraint_to_add c @ [NullTest IS_NULL (Var (v\<lparr>vlocation := -1\<rparr>)) False (-1)]\<rparr>)"
proof -
  have le: "heap_le m0 (mmem c)" and cur: "mcurrent_trueVar c = cur" and ok: "mem_ok (mmem c)"
    and l: "attr_list (mmem c) (list_of_not_null_in_current c) A"
    using assms(2) by (simp_all add: mctx_ok_def)
  from assms(1) obtain rv tv where rv: "getTrueVar (mmem c) cur v = Inr rv" "load_obj (mmem c) rv = Inr tv"
    and nn: "attr tv \<in> A \<longrightarrow> var_value ec (varlevelsup v) (varno v) (varattno v) \<noteq> None"
    unfolding known_def using getTrueVar_le [OF le] load_le(3) [OF le] by blast
  from isInListTrueVar_attr [OF ok l rv(2)] obtain b where
    b: "isInListTrueVar (mmem c) (list_of_not_null_in_current c) rv = Inr b" "b \<longrightarrow> attr tv \<in> A"
    by blast
  show ?thesis
    using rv(1) cur b nn by (cases b) (simp_all add: null_check_def Let_def)
qed

lemma codd_args:
  assumes "\<forall>a \<in> set args. simple_arg (known A ec m0 cur) a" and "mctx_ok null_tests A m0 cur c"
  shows "\<exists>ys K. mutate_elems codd_mutator args c = Inr (ys, c\<lparr>constraint_to_add := constraint_to_add c @ K\<rparr>) \<and>
           (\<forall>e. map (ExecEvalExpr e) ys = map (ExecEvalExpr e) args) \<and> null_tests K \<and>
           (mready c \<longrightarrow> (\<exists>a \<in> set args. ExecEvalExpr ec a = None) \<longrightarrow> (\<exists>t \<in> set K. is_true (ExecEvalExpr ec t)))"
  using assms
proof (induction args arbitrary: c)
  case Nil
  show ?case by (intro exI [of _ "[]"]) simp
next
  case (Cons a args)
  have "\<exists>y K. codd_mutator a c = Inr (y, c\<lparr>constraint_to_add := constraint_to_add c @ K\<rparr>) \<and>
          (\<forall>e. ExecEvalExpr e y = ExecEvalExpr e a) \<and> null_tests K \<and>
          (mready c \<longrightarrow> ExecEvalExpr ec a = None \<longrightarrow> (\<exists>t \<in> set K. is_true (ExecEvalExpr ec t)))"
  proof (cases a)
    case (Const k)
    then show ?thesis using Cons.prems(1) by (intro exI [of _ a] exI [of _ "[]"]) (simp add: codd_mutator_simps)
  next
    case (Var v)
    then have "known A ec m0 cur v" using Cons.prems(1) by simp
    note nc = null_check_known [OF this Cons.prems(2)]
    let ?t = "NullTest IS_NULL (Var (v\<lparr>vlocation := -1\<rparr>)) False (-1)"
    consider "\<not> mready c" | "mready c" "null_check v c = Inr (Var v, c)" "ExecEvalExpr ec (Var v) \<noteq> None"
      | "mready c" "null_check v c = Inr (Var (v\<lparr>vlocation := -1\<rparr>), c\<lparr>constraint_to_add := constraint_to_add c @ [?t]\<rparr>)"
      using nc by blast
    then show ?thesis
    proof cases
      case 3
      then show ?thesis using Var
        by (intro exI [of _ "Var (v\<lparr>vlocation := -1\<rparr>)"] exI [of _ "[?t]"]) (simp add: codd_mutator_simps)
    qed (use Var in \<open>intro exI [of _ a] exI [of _ "[]"], simp add: codd_mutator_simps\<close>)+
  qed (use Cons.prems(1) in simp_all)
  then obtain y K where y: "codd_mutator a c = Inr (y, c\<lparr>constraint_to_add := constraint_to_add c @ K\<rparr>)"
    "\<forall>e. ExecEvalExpr e y = ExecEvalExpr e a" "null_tests K"
    "mready c \<longrightarrow> ExecEvalExpr ec a = None \<longrightarrow> (\<exists>t \<in> set K. is_true (ExecEvalExpr ec t))"
    by (elim exE conjE) (rule that)
  let ?c = "c\<lparr>constraint_to_add := constraint_to_add c @ K\<rparr>"
  have "mctx_ok null_tests A m0 cur ?c"
    by (rule mctx_ok_pending [OF Cons.prems(2)]) (use Cons.prems(2) y(3) in \<open>simp add: mctx_ok_def\<close>)
  with Cons.IH [of ?c] Cons.prems(1) obtain ys L where
    ys: "mutate_elems codd_mutator args ?c = Inr (ys, c\<lparr>constraint_to_add := constraint_to_add c @ K @ L\<rparr>)"
    "\<forall>e. map (ExecEvalExpr e) ys = map (ExecEvalExpr e) args" "null_tests L"
    "mready c \<longrightarrow> (\<exists>a \<in> set args. ExecEvalExpr ec a = None) \<longrightarrow> (\<exists>t \<in> set L. is_true (ExecEvalExpr ec t))"
    by auto
  show ?case
    by (intro exI [of _ "y # ys"] exI [of _ "K @ L"]) (use y ys in auto)
qed

lemma no_query_in_op:
  assumes "\<forall>a \<in> set args. simple_arg P a"
  shows "\<not> has_query (OpExpr opno f args)"
proof -
  have "query_walker a u = Inr (False, u)" if "simple_arg P a" for a u
    using that by (cases a) (simp_all add: query_walker.simps expression_tree_walker_simps)
  with assms have "walk_list query_walker (map Inr args) u = Inr (False, u)" for u
    by (induction args) simp_all
  then show ?thesis
    by (simp add: has_query_def query_walker.simps [of "OpExpr opno f args"] expression_tree_walker_simps)
qed

lemma codd_mutator_op:
  "codd_mutator (OpExpr opno f args) c =
     bnd (bnd (mutate_elems codd_mutator args
            (if \<not> positive c \<and> opno \<in> set codd_ops then c\<lparr>mready := True\<rparr> else c))
            (\<lambda>(args, s). Inr (OpExpr opno f args, s))) (\<lambda>(result, c).
     if constraint_to_add c = [] then Inr (result, c)
     else if \<not> positive c then Inr (add_pending OR_EXPR result c)
     else if has_query (OpExpr opno f args) then Inl Shared
     else bnd (mutate_elems codd_mutator args c) (\<lambda>(args, s). Inr (OpExpr opno f args, s)))"
  by (simp add: codd_mutator.simps [of "OpExpr opno f args"] expression_tree_mutator_simps codd_mutate_list cong: if_cong)

lemma codd_op_negative:
  assumes "\<forall>a \<in> set args. simple_arg (known A ec m0 cur) a" and "opno \<in> set codd_ops" and "\<not> positive c"
    and "mctx_ok null_tests A m0 cur c" and comp: "completes ec ec'"
  shows "\<exists>n' c'. codd_mutator (OpExpr opno f args) c = Inr (n', c') \<and> mctx_ok null_tests A m0 cur c' \<and> mctx_step c c' \<and>
           certain False ec ec' (OpExpr opno f args) n'"
proof -
  let ?n = "OpExpr opno f args"
  have ok0: "mctx_ok null_tests A m0 cur (c\<lparr>mready := True\<rparr>)" using assms(4) by (simp add: mctx_ok_def)
  obtain ys K where ys: "mutate_elems codd_mutator args (c\<lparr>mready := True\<rparr>) =
      Inr (ys, c\<lparr>mready := True, constraint_to_add := constraint_to_add c @ K\<rparr>)"
    "\<forall>e. map (ExecEvalExpr e) ys = map (ExecEvalExpr e) args" "null_tests K"
    "(\<exists>a \<in> set args. ExecEvalExpr ec a = None) \<longrightarrow> (\<exists>t \<in> set K. is_true (ExecEvalExpr ec t))"
    using codd_args [OF assms(1) ok0] by auto
  have same: "ExecEvalExpr e (OpExpr opno f ys) = ExecEvalExpr e ?n" for e
    using ys(2) by (simp only: eval_simps(3))
  have cover: "(\<exists>t \<in> set K. is_true (ExecEvalExpr ec t)) \<or> ExecEvalExpr ec' ?n = ExecEvalExpr ec ?n"
    using ys(4) eval_op_complete(2) [OF comp assms(1), of opno f]
    by (cases "\<exists>a \<in> set args. ExecEvalExpr ec a = None") (simp_all del: eval_simps)
  show ?thesis
  proof (cases "constraint_to_add c @ K = []")
    case True
    then have "codd_mutator ?n c = Inr (OpExpr opno f ys, c\<lparr>mready := True, constraint_to_add := []\<rparr>)"
      using ys(1) assms(2,3) by (simp add: codd_mutator_op)
    moreover have "certain False ec ec' ?n (OpExpr opno f ys)"
      unfolding certain_def same using cover True by simp
    ultimately show ?thesis
      using ok0 by (intro exI conjI) (assumption | simp add: mctx_ok_def mctx_step_def)+
  next
    case False
    let ?r = "BoolExpr OR_EXPR (constraint_to_add c @ K @ [OpExpr opno f ys]) (-1)"
    have "codd_mutator ?n c = Inr (?r, c\<lparr>mready := False, constraint_to_add := []\<rparr>)"
      using False ys(1) assms(2,3) by (simp add: codd_mutator_op add_pending_def makeBoolExpr_def)
    moreover have "certain False ec ec' ?n ?r"
      unfolding certain_def eval_simps(5) ExecEvalOr_true using cover same by auto
    ultimately show ?thesis
      using ok0 by (intro exI conjI) (assumption | simp add: mctx_ok_def mctx_step_def)+
  qed
qed

lemma codd_op_positive:
  assumes "\<forall>a \<in> set args. simple_arg (known A ec m0 cur) a" and "positive c"
    and "mctx_ok null_tests A m0 cur c" and comp: "completes ec ec'"
  shows "\<exists>n' c'. codd_mutator (OpExpr opno f args) c = Inr (n', c') \<and> mctx_ok null_tests A m0 cur c' \<and> mctx_step c c' \<and>
           certain True ec ec' (OpExpr opno f args) n'"
proof -
  let ?n = "OpExpr opno f args"
  have cert: "certain True ec ec' ?n (OpExpr opno f ys)"
    if "\<forall>e. map (ExecEvalExpr e) ys = map (ExecEvalExpr e) args" for ys
  proof -
    have "ExecEvalExpr ec (OpExpr opno f ys) = ExecEvalExpr ec ?n" using that by (simp only: eval_simps(3))
    then show ?thesis
      unfolding certain_def using eval_op_complete(2,3) [OF comp assms(1), of opno f] not_true_and_false
      by (auto simp: is_true_def simp del: eval_simps)
  qed
  obtain ys K where ys: "mutate_elems codd_mutator args c = Inr (ys, c\<lparr>constraint_to_add := constraint_to_add c @ K\<rparr>)"
    "\<forall>e. map (ExecEvalExpr e) ys = map (ExecEvalExpr e) args" "null_tests K"
    using codd_args [OF assms(1,3)] by auto
  let ?c = "c\<lparr>constraint_to_add := constraint_to_add c @ K\<rparr>"
  have ok1: "mctx_ok null_tests A m0 cur ?c"
    by (rule mctx_ok_pending [OF assms(3)]) (use assms(3) ys(3) in \<open>simp add: mctx_ok_def\<close>)
  obtain zs L where zs: "mutate_elems codd_mutator args ?c = Inr (zs, c\<lparr>constraint_to_add := constraint_to_add c @ K @ L\<rparr>)"
    "\<forall>e. map (ExecEvalExpr e) zs = map (ExecEvalExpr e) args" "null_tests L"
    using codd_args [OF assms(1) ok1] by auto
  show ?thesis
  proof (cases "constraint_to_add c @ K = []")
    case True
    then have "codd_mutator ?n c = Inr (OpExpr opno f ys, ?c)"
      using ys(1) assms(2) by (simp add: codd_mutator_op)
    then show ?thesis
      using ok1 cert [OF ys(2)] by (intro exI conjI) (assumption | simp add: mctx_step_def)+
  next
    case False
    have "codd_mutator ?n c = Inr (OpExpr opno f zs, c\<lparr>constraint_to_add := constraint_to_add c @ K @ L\<rparr>)"
      using False ys(1) zs(1) assms(2) no_query_in_op [OF assms(1)] by (auto simp: codd_mutator_op)
    moreover have "mctx_ok null_tests A m0 cur (c\<lparr>constraint_to_add := constraint_to_add c @ K @ L\<rparr>)"
      by (rule mctx_ok_pending [OF assms(3)]) (use assms(3) ys(3) zs(3) in \<open>simp add: mctx_ok_def\<close>)
    ultimately show ?thesis
      using cert [OF zs(2)] by (intro exI conjI) (assumption | simp add: mctx_step_def)+
  qed
qed

subsection \<open>All conditions\<close>

interpretation codd: rewriter codd_mutator null_tests
  by unfold_locales
     (simp_all add: codd_mutator_simps codd_mutator.simps [of "BoolExpr b args l" for b args l])

lemma codd_certainly:
  assumes comp: "completes ec ec'"
  shows "codd_cond P pos n \<Longrightarrow> P = known A ec m0 cur \<Longrightarrow> certainly codd_mutator null_tests A m0 cur pos ec ec' n"
proof (induction P pos n rule: codd_cond.induct)
  case (1 P pos opno f args)
  then have args: "\<forall>a \<in> set args. simple_arg (known A ec m0 cur) a" and op: "pos \<or> opno \<in> set codd_ops"
    by simp_all
  show ?case
  proof (rule certainlyI)
    fix c assume c: "mctx_ok null_tests A m0 cur c" "positive c = pos"
    show "\<exists>n' c'. codd_mutator (OpExpr opno f args) c = Inr (n', c') \<and> mctx_ok null_tests A m0 cur c' \<and> mctx_step c c' \<and>
        certain pos ec ec' (OpExpr opno f args) n'"
      using codd_op_positive [OF args _ c(1) comp, of opno f] codd_op_negative [OF args _ _ c(1) comp, of opno f] c(2) op
      by (cases pos) simp_all
  qed
next
  case (2 P pos a l)
  then have pos: "pos" and a: "codd_cond P False a" and c: "certainly codd_mutator null_tests A m0 cur False ec ec' a"
    by simp_all
  show ?case unfolding eqTrueI [OF pos] by (rule codd.negation_certain [OF c eval_cond_complete [OF comp a]])
next
  case (3 P pos args l)
  then show ?case by (intro codd.connective_certain ballI) simp_all
next
  case (4 P pos args l)
  then show ?case by (intro codd.connective_certain ballI) simp_all
qed simp_all

subsection \<open>The rewriting is sound for certain answers\<close>


text \<open>
  An instance: the condition \<open>x <> 1\<close> under a negation, a tuple with \<open>x\<close> null and the completion with
  \<open>x = 5\<close>.
\<close>

definition sample_cond :: "nat \<Rightarrow> node" where
  "sample_cond opno = OpExpr opno [] [Var sample_var, makeConst 23 (-1) 0 4 1 False True]"

definition sample_econtext :: "datum option \<Rightarrow> econtext" where
  "sample_econtext x =
     \<lparr>var_value = (\<lambda>l n a. x),
      op_function = (\<lambda>opno ds. Some (BoolGetDatum (if opno = 518 then hd ds \<noteq> last ds else hd ds = last ds))),
      other_value = (\<lambda>n. None)\<rparr>"

lemma sample_known: "known {} ec sample_mem 4 sample_var"
  by (simp add: known_def getTrueVar_def list_nth_def list_nth_cell_def lfirst_def load_list_def load_cell_def
      load_obj_def sample_mem_def sample_var_def zero_var_def int_of_index_def)

lemma sample_completes: "completes (sample_econtext None) (sample_econtext (Some d))"
  by (simp add: completes_def sample_econtext_def)

lemma sample_true: "is_true (ExecEvalExpr (sample_econtext (Some 5)) (sample_cond 518))"
  by (simp add: sample_cond_def sample_econtext_def makeConst_def ExecMakeFunctionResultNoSets_def)


end
