(* ===== verification/Marked_Certain.thy ===== *)
theory Marked_Certain
  imports Certain_Rewrite
begin

section \<open>What the marked-null mutator guarantees\<close>

text \<open>
  The second plug-in stores a marked null as a negative integer, and equal negative integers are the
  same unknown value. A tuple stands for its images under the valuations \<open>h\<close>, which fix the
  non-negative integers and send every mark to some value. On conditions built from equalities and
  inequalities the rewriting keeps the promise \<open>certain\<close> of the Codd plug-in.
\<close>

definition valuation :: "(datum \<Rightarrow> datum) \<Rightarrow> econtext \<Rightarrow> econtext \<Rightarrow> bool" where
  "valuation h ec ec' \<longleftrightarrow>
     (\<forall>d \<ge> 0. h d = d) \<and> (\<forall>l n a. var_value ec l n a \<noteq> None) \<and>
     (\<forall>l n a. var_value ec' l n a = map_option h (var_value ec l n a)) \<and> op_function ec' = op_function ec \<and>
     (\<forall>x y. op_function ec 96 [x, y] = Some (BoolGetDatum (x = y)) \<and>
            op_function ec 518 [x, y] = Some (BoolGetDatum (x \<noteq> y)) \<and>
            op_function ec 97 [x, y] = Some (BoolGetDatum (x < y)) \<and>
            op_function ec 521 [x, y] = Some (BoolGetDatum (x > y)))"

fun marked_arg :: "(pg_var \<Rightarrow> bool) \<Rightarrow> node \<Rightarrow> bool" where
  "marked_arg P (Var v) \<longleftrightarrow> P v"
| "marked_arg P (Const c) \<longleftrightarrow> \<not> constisnull c \<and> 0 \<le> constvalue c"
| "marked_arg P _ \<longleftrightarrow> False"

fun marked_cond :: "(pg_var \<Rightarrow> bool) \<Rightarrow> bool \<Rightarrow> node \<Rightarrow> bool" where
  "marked_cond P pos (OpExpr opno f [x, y]) \<longleftrightarrow> marked_arg P x \<and> marked_arg P y \<and> (opno = 96 \<or> opno = 518)"
| "marked_cond P pos (BoolExpr NOT_EXPR [a] l) \<longleftrightarrow> pos \<and> marked_cond P False a"
| "marked_cond P pos (BoolExpr AND_EXPR args l) \<longleftrightarrow> (\<forall>a \<in> set args. marked_cond P pos a)"
| "marked_cond P pos (BoolExpr OR_EXPR args l) \<longleftrightarrow> (\<forall>a \<in> set args. marked_cond P pos a)"
| "marked_cond P pos _ \<longleftrightarrow> False"

definition marked_known :: "column set \<Rightarrow> econtext \<Rightarrow> vmem \<Rightarrow> nat \<Rightarrow> pg_var \<Rightarrow> bool" where
  "marked_known A ec m cur v \<longleftrightarrow>
     (\<exists>rv tv. getTrueVar m cur v = Inr rv \<and> load_obj m rv = Inr tv \<and>
        (attr tv \<in> A \<longrightarrow> (\<exists>d \<ge> 0. var_value ec (varlevelsup v) (varno v) (varattno v) = Some d)))"

definition nonneg :: "econtext \<Rightarrow> node \<Rightarrow> bool" where
  "nonneg ec a \<longleftrightarrow> (\<exists>d \<ge> 0. ExecEvalExpr ec a = Some d)"

definition none_pending :: "node list \<Rightarrow> bool" where
  "none_pending ts \<longleftrightarrow> ts = []"

subsection \<open>Evaluation under a valuation\<close>

lemma eval_arg_valuation:
  assumes "valuation h ec ec'" and "marked_arg P a"
  shows "ExecEvalExpr ec' a = map_option h (ExecEvalExpr ec a)" and "ExecEvalExpr ec a \<noteq> None"
  using assms by (cases a; simp add: valuation_def)+

lemma eval_cmp:
  assumes "valuation h ec ec'" and "marked_arg P x" and "marked_arg P y"
  obtains d e where "ExecEvalExpr ec x = Some d" and "ExecEvalExpr ec y = Some e"
    and "ExecEvalExpr ec' x = Some (h d)" and "ExecEvalExpr ec' y = Some (h e)"
    and "\<And>f. is_true (ExecEvalExpr ec (OpExpr 96 f [x, y])) \<longleftrightarrow> d = e"
    and "\<And>f. is_true (ExecEvalExpr ec' (OpExpr 96 f [x, y])) \<longleftrightarrow> h d = h e"
    and "\<And>f. is_true (ExecEvalExpr ec (OpExpr 518 f [x, y])) \<longleftrightarrow> d \<noteq> e"
    and "\<And>f. is_true (ExecEvalExpr ec' (OpExpr 518 f [x, y])) \<longleftrightarrow> h d \<noteq> h e"
proof -
  obtain d e where d: "ExecEvalExpr ec x = Some d" "ExecEvalExpr ec y = Some e"
    using eval_arg_valuation(2) [OF assms(1)] assms(2,3) by blast
  moreover have "ExecEvalExpr ec' x = Some (h d)" "ExecEvalExpr ec' y = Some (h e)"
    using eval_arg_valuation(1) [OF assms(1)] assms(2,3) d by simp_all
  moreover have "op_function ec' = op_function ec" using assms(1) by (simp add: valuation_def)
  ultimately show thesis
    using assms(1) by (intro that) (simp_all add: ExecMakeFunctionResultNoSets_def valuation_def)
qed

lemma eval_op_not_None:
  assumes "valuation h ec ec'" and "marked_arg P x" and "marked_arg P y" and "opno = 96 \<or> opno = 518"
  shows "ExecEvalExpr ec' (OpExpr opno f [x, y]) \<noteq> None"
proof -
  obtain d e where "ExecEvalExpr ec' x = Some (h d)" "ExecEvalExpr ec' y = Some (h e)"
    by (rule eval_cmp [OF assms(1-3)])
  moreover have "op_function ec' = op_function ec" using assms(1) by (simp add: valuation_def)
  ultimately show ?thesis using assms(1,4) by (auto simp: ExecMakeFunctionResultNoSets_def valuation_def)
qed

lemma eval_marked_cond:
  assumes "valuation h ec ec'"
  shows "marked_cond P pos n \<Longrightarrow> ExecEvalExpr ec' n \<noteq> None"
proof (induction P pos n rule: marked_cond.induct)
  case (1 P pos opno f x y)
  then show ?case using eval_op_not_None [OF assms, of P x y opno f] by simp
next
  case (2 P pos a l)
  then show ?case by (auto simp: ExecEvalNot_def split: option.splits)
next
  case (3 P pos args l)
  then have "None \<notin> set (map (ExecEvalExpr ec') args)" by force
  then show ?case using ExecEvalAnd_None [of False "map (ExecEvalExpr ec') args"] unfolding eval_simps by blast
next
  case (4 P pos args l)
  then have "None \<notin> set (map (ExecEvalExpr ec') args)" by force
  then show ?case using ExecEvalOr_None [of False "map (ExecEvalExpr ec') args"] unfolding eval_simps by blast
qed simp_all

lemma compare_zero_true:
  assumes "valuation h ec ec'"
  shows "is_true (ExecEvalExpr ec (compare_zero 521 (Var v))) \<Longrightarrow> nonneg ec (Var v)"
    and "\<not> is_true (ExecEvalExpr ec (compare_zero 97 (Var v))) \<Longrightarrow> nonneg ec (Var v)"
proof -
  obtain d where d: "var_value ec (varlevelsup v) (varno v) (varattno v) = Some d"
    using assms by (fastforce simp: valuation_def)
  have "is_true (ExecEvalExpr ec (compare_zero 521 (Var v))) \<longleftrightarrow> d > 0"
    "is_true (ExecEvalExpr ec (compare_zero 97 (Var v))) \<longleftrightarrow> d < 0"
    using assms d by (simp_all add: compare_zero_def makeConst_def ExecMakeFunctionResultNoSets_def valuation_def)
  then show "is_true (ExecEvalExpr ec (compare_zero 521 (Var v))) \<Longrightarrow> nonneg ec (Var v)"
    and "\<not> is_true (ExecEvalExpr ec (compare_zero 97 (Var v))) \<Longrightarrow> nonneg ec (Var v)"
    using d by (simp_all add: nonneg_def)
qed

subsection \<open>Comparisons\<close>

lemma marked_mutator_simps:
  "marked_mutator Null c = Inr (Null, c)"
  "marked_mutator (TList xs) c = expression_tree_mutator marked_mutator (TList xs) c"
  "marked_mutator (Const k) c = Inr (Const k, c)"
  "marked_mutator (Var v) c = bnd (if mready c then mark_check v c else Inr c) (\<lambda>c. Inr (Var v, c))"
  by (simp_all add: marked_mutator.simps [where node = Null] marked_mutator.simps [where node = "TList xs"]
      marked_mutator.simps [where node = "Const k"] marked_mutator.simps [where node = "Var v"]
      expression_tree_mutator_simps)

lemmas marked_mutate_list = mutate_list_elems [of marked_mutator, OF marked_mutator_simps(1,2)]

lemma mctx_ok_any: "mctx_ok pend A m0 cur c \<Longrightarrow> mctx_ok (\<lambda>_. True) A m0 cur (c\<lparr>constraint_to_add := K, mready := b\<rparr>)"
  by (simp add: mctx_ok_def)

text \<open>\<open>covers\<close>: the constraints \<open>K\<close> collected for some arguments decide whether these are marks.\<close>

definition covers :: "econtext \<Rightarrow> mctx \<Rightarrow> node list \<Rightarrow> node list \<Rightarrow> bool" where
  "covers ec c K args \<longleftrightarrow>
     (mready c \<longrightarrow> positive c \<longrightarrow> (\<forall>t \<in> set K. is_true (ExecEvalExpr ec t)) \<longrightarrow> (\<forall>a \<in> set args. nonneg ec a)) \<and>
     (mready c \<longrightarrow> \<not> positive c \<longrightarrow> (\<forall>t \<in> set K. \<not> is_true (ExecEvalExpr ec t)) \<longrightarrow> (\<forall>a \<in> set args. nonneg ec a))"

lemma marked_var:
  assumes "marked_known A ec m0 cur v" and "mctx_ok (\<lambda>_. True) A m0 cur c" and val: "valuation h ec ec'"
  shows "\<exists>K. marked_mutator (Var v) c = Inr (Var v, c\<lparr>constraint_to_add := constraint_to_add c @ K\<rparr>) \<and>
           covers ec c K [Var v]"
proof (cases "mready c")
  case False
  then show ?thesis by (intro exI [of _ "[]"]) (simp add: marked_mutator_simps covers_def)
next
  case True
  have le: "heap_le m0 (mmem c)" and cur: "mcurrent_trueVar c = cur" and ok: "mem_ok (mmem c)"
    and l: "attr_list (mmem c) (list_of_not_null_in_current c) A"
    using assms(2) by (simp_all add: mctx_ok_def)
  from assms(1) obtain rv tv where rv: "getTrueVar (mmem c) cur v = Inr rv" "load_obj (mmem c) rv = Inr tv"
    and nn: "attr tv \<in> A \<longrightarrow> nonneg ec (Var v)"
    unfolding marked_known_def nonneg_def using getTrueVar_le [OF le] load_le(3) [OF le] by auto
  from isInListTrueVar_attr [OF ok l rv(2)] obtain b where
    b: "isInListTrueVar (mmem c) (list_of_not_null_in_current c) rv = Inr b" "b \<longrightarrow> attr tv \<in> A"
    by blast
  let ?K = "if positive c then [compare_zero 521 (Var v)] else if b then [] else [compare_zero 97 (Var v)]"
  have "marked_mutator (Var v) c = Inr (Var v, c\<lparr>constraint_to_add := constraint_to_add c @ ?K\<rparr>)"
    using True rv(1) cur b(1) by (simp add: marked_mutator_simps mark_check_def)
  moreover have "covers ec c ?K [Var v]"
    using compare_zero_true [OF val, of v] b(2) nn by (simp add: covers_def)
  ultimately show ?thesis by blast
qed

lemma marked_args:
  assumes "\<forall>a \<in> set args. marked_arg (marked_known A ec m0 cur) a" and "mctx_ok (\<lambda>_. True) A m0 cur c"
    and val: "valuation h ec ec'"
  shows "\<exists>K. mutate_elems marked_mutator args c = Inr (args, c\<lparr>constraint_to_add := constraint_to_add c @ K\<rparr>) \<and>
           covers ec c K args"
  using assms(1,2)
proof (induction args arbitrary: c)
  case Nil
  show ?case by (intro exI [of _ "[]"]) (simp add: covers_def)
next
  case (Cons a args)
  have "\<exists>K. marked_mutator a c = Inr (a, c\<lparr>constraint_to_add := constraint_to_add c @ K\<rparr>) \<and> covers ec c K [a]"
  proof (cases a)
    case (Var v)
    then show ?thesis using marked_var [OF _ Cons.prems(2) val] Cons.prems(1) by simp
  next
    case (Const k)
    then show ?thesis using Cons.prems(1)
      by (intro exI [of _ "[]"]) (simp add: marked_mutator_simps covers_def nonneg_def)
  qed (use Cons.prems(1) in simp_all)
  then obtain K where K: "marked_mutator a c = Inr (a, c\<lparr>constraint_to_add := constraint_to_add c @ K\<rparr>)" "covers ec c K [a]"
    by blast
  let ?c = "c\<lparr>constraint_to_add := constraint_to_add c @ K\<rparr>"
  have "mctx_ok (\<lambda>_. True) A m0 cur ?c" using Cons.prems(2) by (simp add: mctx_ok_def)
  with Cons.IH [of ?c] Cons.prems(1) obtain L where
    L: "mutate_elems marked_mutator args ?c = Inr (args, c\<lparr>constraint_to_add := constraint_to_add c @ K @ L\<rparr>)" "covers ec ?c L args"
    by auto
  have "covers ec c (K @ L) (a # args)" using K(2) L(2) by (auto simp: covers_def)
  then show ?case using K(1) L(1) by (intro exI [of _ "K @ L"]) simp
qed

lemma marked_mutator_op:
  assumes "opno = 96 \<or> opno = 518"
  shows "marked_mutator (OpExpr opno f args) c =
     bnd (mutate_elems marked_mutator args
            (if positive c \<and> opno = 518 \<or> \<not> positive c \<and> opno = 96 then c\<lparr>mready := True\<rparr> else c)) (\<lambda>(args, c).
     if constraint_to_add c = [] then Inr (OpExpr opno f args, c)
     else Inr (add_pending (if positive c then AND_EXPR else OR_EXPR) (OpExpr opno f args) c))"
  using assms
  by (auto simp: marked_mutator.simps [of "OpExpr opno f args"] expression_tree_mutator_simps marked_mutate_list
      bnd_assoc Let_def intro!: bnd_cong split: prod.splits)

lemma marked_op_result:
  assumes args: "\<forall>a \<in> set args. marked_arg (marked_known A ec m0 cur) a" and op: "opno = 96 \<or> opno = 518"
    and ok: "mctx_ok none_pending A m0 cur c" and val: "valuation h ec ec'"
  shows "\<exists>K c' r. marked_mutator (OpExpr opno f args) c = Inr (r, c') \<and> mctx_ok none_pending A m0 cur c' \<and> mctx_step c c' \<and>
     covers ec (c\<lparr>mready := mready c \<or> positive c \<and> opno = 518 \<or> \<not> positive c \<and> opno = 96\<rparr>) K args \<and>
     is_true (ExecEvalExpr ec r) =
       (if positive c then is_true (ExecEvalExpr ec (OpExpr opno f args)) \<and> (\<forall>t \<in> set K. is_true (ExecEvalExpr ec t))
        else is_true (ExecEvalExpr ec (OpExpr opno f args)) \<or> (\<exists>t \<in> set K. is_true (ExecEvalExpr ec t)))"
proof -
  let ?b = "mready c \<or> positive c \<and> opno = 518 \<or> \<not> positive c \<and> opno = 96"
  let ?c = "c\<lparr>mready := ?b\<rparr>"
  have c: "(if positive c \<and> opno = 518 \<or> \<not> positive c \<and> opno = 96 then c\<lparr>mready := True\<rparr> else c) = ?c" by auto
  have pend: "constraint_to_add c = []" using ok by (simp add: mctx_ok_def none_pending_def)
  have "mctx_ok (\<lambda>_. True) A m0 cur ?c" using ok by (simp add: mctx_ok_def)
  from marked_args [OF args this val] obtain K where
    K: "mutate_elems marked_mutator args ?c = Inr (args, ?c\<lparr>constraint_to_add := K\<rparr>)" "covers ec ?c K args"
    using pend by auto
  show ?thesis
  proof (cases "K = []")
    case True
    then have "marked_mutator (OpExpr opno f args) c = Inr (OpExpr opno f args, ?c\<lparr>constraint_to_add := []\<rparr>)"
      using K(1) by (simp add: marked_mutator_op [OF op] c)
    moreover have "mctx_ok none_pending A m0 cur (?c\<lparr>constraint_to_add := []\<rparr>)" "mctx_step c (?c\<lparr>constraint_to_add := []\<rparr>)"
      using ok by (simp_all add: mctx_ok_def mctx_step_def none_pending_def)
    ultimately show ?thesis using K(2) True
      by (intro exI [of _ "[]"] exI [of _ "?c\<lparr>constraint_to_add := []\<rparr>"] exI [of _ "OpExpr opno f args"] conjI)
         (simp_all del: eval_simps)
  next
    case False
    let ?r = "BoolExpr (if positive c then AND_EXPR else OR_EXPR) (K @ [OpExpr opno f args]) (-1)"
    let ?d = "c\<lparr>mready := False, constraint_to_add := []\<rparr>"
    have "marked_mutator (OpExpr opno f args) c = Inr (?r, ?d)"
      using K(1) False by (simp add: marked_mutator_op [OF op] c add_pending_def makeBoolExpr_def)
    moreover have "mctx_ok none_pending A m0 cur ?d" "mctx_step c ?d"
      using ok by (simp_all add: mctx_ok_def mctx_step_def none_pending_def)
    moreover have "is_true (ExecEvalExpr ec ?r) =
       (if positive c then is_true (ExecEvalExpr ec (OpExpr opno f args)) \<and> (\<forall>t \<in> set K. is_true (ExecEvalExpr ec t))
        else is_true (ExecEvalExpr ec (OpExpr opno f args)) \<or> (\<exists>t \<in> set K. is_true (ExecEvalExpr ec t)))"
      by (auto simp: eval_simps(5,6) simp del: eval_simps(3) ExecEvalAnd.simps ExecEvalOr.simps)
    ultimately show ?thesis using K(2) by blast
  qed
qed

lemma marked_op_certain:
  assumes args: "marked_arg (marked_known A ec m0 cur) x" "marked_arg (marked_known A ec m0 cur) y"
    and op: "opno = 96 \<or> opno = 518" and val: "valuation h ec ec'"
  shows "certainly marked_mutator none_pending A m0 cur pos ec ec' (OpExpr opno f [x, y])"
proof (rule certainlyI)
  fix c assume ok: "mctx_ok none_pending A m0 cur c" and pos: "positive c = pos"
  let ?n = "OpExpr opno f [x, y]"
  have xy: "\<forall>a \<in> set [x, y]. marked_arg (marked_known A ec m0 cur) a" using args by simp
  obtain K c' r where
    r: "marked_mutator ?n c = Inr (r, c')" "mctx_ok none_pending A m0 cur c'" "mctx_step c c'"
      "covers ec (c\<lparr>mready := mready c \<or> positive c \<and> opno = 518 \<or> \<not> positive c \<and> opno = 96\<rparr>) K [x, y]"
      "is_true (ExecEvalExpr ec r) =
       (if positive c then is_true (ExecEvalExpr ec ?n) \<and> (\<forall>t \<in> set K. is_true (ExecEvalExpr ec t))
        else is_true (ExecEvalExpr ec ?n) \<or> (\<exists>t \<in> set K. is_true (ExecEvalExpr ec t)))"
    using marked_op_result [OF xy op ok val, of f] by (elim exE conjE) (rule that)
  obtain d e where d: "ExecEvalExpr ec x = Some d" "ExecEvalExpr ec y = Some e"
    "is_true (ExecEvalExpr ec (OpExpr 96 f [x, y])) \<longleftrightarrow> d = e"
    "is_true (ExecEvalExpr ec' (OpExpr 96 f [x, y])) \<longleftrightarrow> h d = h e"
    "is_true (ExecEvalExpr ec (OpExpr 518 f [x, y])) \<longleftrightarrow> d \<noteq> e"
    "is_true (ExecEvalExpr ec' (OpExpr 518 f [x, y])) \<longleftrightarrow> h d \<noteq> h e"
    by (rule eval_cmp [OF val args]) blast
  have same: "h d = d \<and> h e = e" if "\<forall>a \<in> set [x, y]. nonneg ec a"
    using that d(1,2) val by (auto simp: nonneg_def valuation_def)
  have "certain pos ec ec' ?n r"
    using op
  proof
    assume "opno = 96"
    then show ?thesis
      using r(4,5) d(3,4) same pos unfolding certain_def covers_def by (cases pos) auto
  next
    assume "opno = 518"
    then show ?thesis
      using r(4,5) d(5,6) same pos unfolding certain_def covers_def by (cases pos) auto
  qed
  with r(1-3) show "\<exists>n' c'. marked_mutator ?n c = Inr (n', c') \<and> mctx_ok none_pending A m0 cur c' \<and>
      mctx_step c c' \<and> certain pos ec ec' ?n n'" by blast
qed

subsection \<open>All conditions\<close>

interpretation marked: rewriter marked_mutator none_pending
  by unfold_locales
     (simp_all add: marked_mutator_simps marked_mutator.simps [of "BoolExpr b args l" for b args l])

lemma marked_certainly:
  assumes val: "valuation h ec ec'"
  shows "marked_cond P pos n \<Longrightarrow> P = marked_known A ec m0 cur \<Longrightarrow>
    certainly marked_mutator none_pending A m0 cur pos ec ec' n"
proof (induction P pos n rule: marked_cond.induct)
  case (1 P pos opno f x y)
  then show ?case using marked_op_certain [OF _ _ _ val, of A m0 cur x y opno pos f] by simp
next
  case (2 P pos a l)
  then have pos: "pos" and a: "marked_cond P False a" and c: "certainly marked_mutator none_pending A m0 cur False ec ec' a"
    by simp_all
  show ?case unfolding eqTrueI [OF pos] by (rule marked.negation_certain [OF c eval_marked_cond [OF val a]])
next
  case (3 P pos args l)
  then show ?case by (intro marked.connective_certain ballI) simp_all
next
  case (4 P pos args l)
  then show ?case by (intro marked.connective_certain ballI) simp_all
qed simp_all


text \<open>
  An instance: \<open>x <> 1\<close> in a positive position and \<open>x = 1\<close> under a negation, on the tuple where \<open>x\<close>
  is the mark \<open>-3\<close>, and the valuation that replaces the mark by 1.
\<close>

definition sample_marked :: "nat \<Rightarrow> node" where
  "sample_marked opno = OpExpr opno [] [Var sample_var, makeConst 23 (-1) 0 4 1 False True]"

definition marked_econtext :: "datum \<Rightarrow> econtext" where
  "marked_econtext x =
     \<lparr>var_value = (\<lambda>l n a. Some x),
      op_function = (\<lambda>opno ds. Some (BoolGetDatum
        (if opno = 96 then hd ds = last ds else if opno = 518 then hd ds \<noteq> last ds
         else if opno = 97 then hd ds < last ds else hd ds > last ds))),
      other_value = (\<lambda>n. None)\<rparr>"

lemma sample_marked_known: "marked_known {} ec sample_mem 4 sample_var"
  by (simp add: marked_known_def getTrueVar_def list_nth_def list_nth_cell_def lfirst_def load_list_def load_cell_def
      load_obj_def sample_mem_def sample_var_def zero_var_def int_of_index_def)


end
