(* ===== verification/Split_Correct.thy ===== *)
theory Split_Correct
  imports Split_Optimize Exec_Qual
begin

section \<open>What \<open>trueSplit\<close> computes\<close>

text \<open>
  \<open>plain\<close> conditions are Boolean combinations of comparisons and null tests of columns and constants. On them one
  round of the inner loop replaces the first disjunction in pre-order (\<open>or_args\<close>) by each of its
  arguments in turn (\<open>put\<close>); \<open>dnf\<close> repeats this until no disjunction is left and \<open>steps\<close> counts the
  rounds of the outer loop. A disjunction at the root is never replaced, since the loop starts the
  mutator on the sub-nodes of the root.
\<close>

fun atom :: "node \<Rightarrow> bool" where
  "atom (Var v) \<longleftrightarrow> True"
| "atom (Const c) \<longleftrightarrow> True"
| "atom _ \<longleftrightarrow> False"

fun plain :: "node \<Rightarrow> bool" where
  "plain (OpExpr opno f args) \<longleftrightarrow> (\<forall>a \<in> set args. atom a)"
| "plain (NullTest t arg r l) \<longleftrightarrow> atom arg"
| "plain (BoolExpr b args l) \<longleftrightarrow> args \<noteq> [] \<and> (\<forall>a \<in> set args. plain a)"
| "plain _ \<longleftrightarrow> False"

fun is_or :: "node \<Rightarrow> bool" where
  "is_or (BoolExpr OR_EXPR args l) \<longleftrightarrow> True"
| "is_or _ \<longleftrightarrow> False"

fun or_args :: "node \<Rightarrow> node list option" and or_args_list :: "node list \<Rightarrow> node list option" where
  "or_args (BoolExpr b args l) = (if b = OR_EXPR then Some args else or_args_list args)"
| "or_args _ = None"
| "or_args_list [] = None"
| "or_args_list (a # as) = (case or_args a of Some xs \<Rightarrow> Some xs | None \<Rightarrow> or_args_list as)"

fun put :: "node \<Rightarrow> node \<Rightarrow> node" and put_list :: "node list \<Rightarrow> node \<Rightarrow> node list" where
  "put (BoolExpr b args l) t = (if b = OR_EXPR then t else BoolExpr b (put_list args t) l)"
| "put n t = n"
| "put_list [] t = []"
| "put_list (a # as) t = (if or_args a \<noteq> None then put a t # as else a # put_list as t)"

text \<open>The number of disjunctions.\<close>

fun ors :: "node \<Rightarrow> nat" and ors_list :: "node list \<Rightarrow> nat" where
  "ors (BoolExpr b args l) = (if b = OR_EXPR then 1 else 0) + ors_list args"
| "ors _ = 0"
| "ors_list [] = 0"
| "ors_list (a # as) = ors a + ors_list as"

subsection \<open>Facts about the specification\<close>

lemma ors_list_elem: "a \<in> set as \<Longrightarrow> ors a \<le> ors_list as"
  by (induction as) auto

lemma or_args_ors:
  "or_args n = Some xs \<Longrightarrow> ors_list xs < ors n"
  "or_args_list ns = Some xs \<Longrightarrow> ors_list xs < ors_list ns"
  by (induction n and ns arbitrary: xs and xs rule: or_args_or_args_list.induct)
     (auto split: if_splits option.splits)

lemma put_ors:
  "or_args n = Some xs \<Longrightarrow> ors (put n t) + ors_list xs < ors n + ors t"
  "or_args_list ns = Some xs \<Longrightarrow> ors_list (put_list ns t) + ors_list xs < ors_list ns + ors t"
  by (induction n and ns arbitrary: xs and xs rule: or_args_or_args_list.induct)
     (auto split: if_splits option.splits)

lemma put_decreases: "or_args n = Some xs \<Longrightarrow> t \<in> set xs \<Longrightarrow> ors (put n t) < ors n"
  using put_ors(1) [of n xs t] ors_list_elem [of t xs] by simp

lemma plain_or_args:
  "plain n \<Longrightarrow> or_args n = Some xs \<Longrightarrow> xs \<noteq> [] \<and> (\<forall>a \<in> set xs. plain a)"
  "\<forall>a \<in> set ns. plain a \<Longrightarrow> or_args_list ns = Some xs \<Longrightarrow> xs \<noteq> [] \<and> (\<forall>a \<in> set xs. plain a)"
  by (induction n and ns arbitrary: xs and xs rule: or_args_or_args_list.induct)
     (auto split: if_splits option.splits)

lemma put_list_Nil [simp]: "put_list ns t = [] \<longleftrightarrow> ns = []"
  by (cases ns) auto

lemma plain_put:
  "plain n \<Longrightarrow> plain t \<Longrightarrow> plain (put n t)"
  "\<forall>a \<in> set ns. plain a \<Longrightarrow> plain t \<Longrightarrow> \<forall>a \<in> set (put_list ns t). plain a"
  by (induction n t and ns t rule: put_put_list.induct) auto

lemma put_not_or: "\<not> is_or n \<Longrightarrow> \<not> is_or (put n t)"
  by (cases n rule: is_or.cases) auto

function dnf :: "node \<Rightarrow> node list" where
  "dnf n = (case or_args n of None \<Rightarrow> [n] | Some xs \<Rightarrow> concat (map (\<lambda>t. dnf (put n t)) xs))"
  by pat_completeness auto
termination
  by (relation "measure ors") (auto simp: put_decreases)

function steps :: "node \<Rightarrow> nat" where
  "steps n = Suc (case or_args n of None \<Rightarrow> 0 | Some xs \<Rightarrow> sum_list (map (\<lambda>t. steps (put n t)) xs))"
  by pat_completeness auto
termination
  by (relation "measure ors") (auto simp: put_decreases)

declare dnf.simps [simp del] steps.simps [simp del]

subsection \<open>The code follows the specification\<close>

lemma split_rel_simps:
  "split_rel Null c = Inr (Null, c)"
  "split_rel (TList xs) c = expression_tree_mutator split_rel (TList xs) c"
  "split_rel (OpExpr opno f args) c = expression_tree_mutator split_rel (OpExpr opno f args) c"
  "split_rel (BoolExpr b args l) c =
     (if b = OR_EXPR \<and> \<not> stop c then choose_arg args c
      else expression_tree_mutator split_rel (BoolExpr b args l) c)"
  by (simp_all add: split_rel.simps [of Null] split_rel.simps [of "TList xs"]
      split_rel.simps [of "OpExpr opno f args"] split_rel.simps [of "BoolExpr b args l"])

lemmas split_mutate_list = mutate_list_elems [of split_rel, OF split_rel_simps(1,2)]

lemma split_rel_atom: "atom a \<Longrightarrow> split_rel a c = Inr (a, c)"
  by (cases a) (simp_all add: split_rel.simps expression_tree_mutator_simps)

lemma split_atoms: "\<forall>a \<in> set as. atom a \<Longrightarrow> mutate_elems split_rel as c = Inr (as, c)"
  by (induction as) (simp_all add: split_rel_atom)

lemma split_rel_op: "\<forall>a \<in> set args. atom a \<Longrightarrow> split_rel (OpExpr opno f args) c = Inr (OpExpr opno f args, c)"
  by (simp add: split_rel_simps expression_tree_mutator_simps split_mutate_list split_atoms)

lemma split_rel_null: "atom arg \<Longrightarrow> split_rel (NullTest t arg r l) c = Inr (NullTest t arg r l, c)"
  by (simp add: split_rel.simps [of "NullTest t arg r l"] expression_tree_mutator_simps split_rel_atom)

lemma split_rel_stop:
  "plain n \<Longrightarrow> stop c \<Longrightarrow> split_rel n c = Inr (n, c)"
  "\<forall>a \<in> set ns. plain a \<Longrightarrow> stop c \<Longrightarrow> mutate_elems split_rel ns c = Inr (ns, c)"
proof (induction n and ns rule: ors_ors_list.induct)
  case (1 b args l)
  then show ?case by (simp add: split_rel_simps expression_tree_mutator_simps split_mutate_list)
qed (simp_all add: split_rel_op split_rel_null)

lemma choose_arg_stop: "choose_arg xs c = Inr (t, c') \<Longrightarrow> stop c'"
  by (auto simp: choose_arg_def bnd_eq_Inr_iff split: if_splits)

lemma split_rel_spec:
  "plain n \<Longrightarrow> \<not> stop c \<Longrightarrow> split_rel n c =
     (case or_args n of None \<Rightarrow> Inr (n, c) | Some xs \<Rightarrow> bnd (choose_arg xs c) (\<lambda>(t, c). Inr (put n t, c)))"
  "\<forall>a \<in> set ns. plain a \<Longrightarrow> \<not> stop c \<Longrightarrow> mutate_elems split_rel ns c =
     (case or_args_list ns of None \<Rightarrow> Inr (ns, c) | Some xs \<Rightarrow> bnd (choose_arg xs c) (\<lambda>(t, c). Inr (put_list ns t, c)))"
proof (induction n and ns rule: or_args_or_args_list.induct)
  case (1 b args l)
  show ?case
  proof (cases "b = OR_EXPR")
    case True
    then show ?thesis using 1 by (cases "choose_arg args c") (auto simp: split_rel_simps)
  next
    case False
    then show ?thesis using 1
      by (cases "or_args_list args")
         (auto simp: split_rel_simps expression_tree_mutator_simps split_mutate_list bnd_assoc
           intro!: bnd_cong split: prod.splits)
  qed
next
  case (4 a as)
  show ?case
  proof (cases "or_args a")
    case None
    then show ?thesis using 4 by (auto split: option.splits prod.splits simp: bnd_assoc intro!: bnd_cong)
  next
    case (Some xs)
    have "mutate_elems split_rel as c' = Inr (as, c')" if "choose_arg xs c = Inr (t, c')" for t c'
      using 4 choose_arg_stop [OF that] by (simp add: split_rel_stop(2))
    then show ?thesis using 4 Some
      by (cases "choose_arg xs c") (auto split: prod.splits)
  qed
qed (simp_all add: split_rel_op split_rel_null)

text \<open>The call the loop makes, on the sub-nodes of the root.\<close>

fun root_args :: "node \<Rightarrow> node list option" where
  "root_args (BoolExpr b args l) = or_args_list args"
| "root_args _ = None"

fun root_put :: "node \<Rightarrow> node \<Rightarrow> node" where
  "root_put (BoolExpr b args l) t = BoolExpr b (put_list args t) l"
| "root_put n t = n"

lemma root_not_or: "\<not> is_or n \<Longrightarrow> root_args n = or_args n \<and> root_put n t = put n t"
  by (cases n rule: is_or.cases) auto

lemma root_put_or: "is_or (root_put n t) = is_or n"
  by (cases n rule: is_or.cases) auto

lemma plain_root_args:
  assumes "plain n" and "root_args n = Some xs"
  shows "xs \<noteq> [] \<and> (\<forall>a \<in> set xs. plain a)"
proof (cases n)
  case (BoolExpr b args l)
  then show ?thesis using assms plain_or_args(2) [of args xs] by simp
qed (use assms in simp_all)

lemma plain_root_put:
  assumes "plain n" and "plain t"
  shows "plain (root_put n t)"
proof (cases n)
  case (BoolExpr b args l)
  then show ?thesis using assms plain_put(2) [of args t] by simp
qed (use assms in simp_all)

lemma split_root:
  assumes "plain n" and "\<not> stop c"
  shows "expression_tree_mutator split_rel n c =
     (case root_args n of None \<Rightarrow> Inr (n, c) | Some xs \<Rightarrow> bnd (choose_arg xs c) (\<lambda>(t, c). Inr (root_put n t, c)))"
proof (cases n)
  case (OpExpr opno f args)
  then show ?thesis using assms split_rel_op [of args opno f c] by (simp add: split_rel_simps)
next
  case (NullTest t arg r l)
  then show ?thesis using assms by (simp add: expression_tree_mutator_simps split_rel_atom)
next
  case (BoolExpr b args l)
  then have "mutate_elems split_rel args c = (case or_args_list args of None \<Rightarrow> Inr (args, c)
      | Some xs \<Rightarrow> bnd (choose_arg xs c) (\<lambda>(t, c). Inr (put_list args t, c)))"
    using assms by (intro split_rel_spec(2)) auto
  then show ?thesis using BoolExpr
    by (cases "or_args_list args")
       (auto simp: expression_tree_mutator_simps split_mutate_list bnd_assoc intro!: bnd_cong split: prod.splits)
qed (use assms in simp_all)

lemma have_to_split_simps:
  "have_to_split (OpExpr opno f args) u = expression_tree_walker have_to_split (OpExpr opno f args) u"
  "have_to_split (BoolExpr b args l) u =
     (if b = OR_EXPR then Inr (True, u) else expression_tree_walker have_to_split (BoolExpr b args l) u)"
  by (simp_all add: have_to_split.simps [of "OpExpr opno f args"] have_to_split.simps [of "BoolExpr b args l"])

lemma have_to_split_atom: "atom a \<Longrightarrow> have_to_split a u = Inr (False, u)"
  by (cases a) (simp_all add: have_to_split.simps expression_tree_walker_simps)

lemma have_to_split_null: "atom arg \<Longrightarrow> have_to_split (NullTest t arg r l) u = Inr (False, u)"
  by (simp add: have_to_split.simps [of "NullTest t arg r l"] expression_tree_walker_simps have_to_split_atom)

lemma have_to_split_op:
  assumes "\<forall>a \<in> set args. atom a"
  shows "have_to_split (OpExpr opno f args) u = Inr (False, u)"
proof -
  from assms have "walk_list have_to_split (map Inr args) u = Inr (False, u)"
    by (induction args) (simp_all add: have_to_split_atom)
  then show ?thesis by (simp add: have_to_split_simps expression_tree_walker_simps)
qed

lemma have_to_split_spec:
  "plain n \<Longrightarrow> have_to_split n u = Inr (or_args n \<noteq> None, u)"
  "\<forall>a \<in> set ns. plain a \<Longrightarrow> walk_list have_to_split (map Inr ns) u = Inr (or_args_list ns \<noteq> None, u)"
proof (induction n and ns rule: or_args_or_args_list.induct)
  case (1 b args l)
  then show ?case by (simp add: have_to_split_simps expression_tree_walker_simps)
next
  case (4 a as)
  then show ?case by (cases "or_args a") simp_all
qed (simp_all add: have_to_split_op have_to_split_null)

subsection \<open>The loops\<close>

lemma split_loop_spec:
  assumes "plain n" and "root_args n = Some xs"
  shows "i < length xs \<Longrightarrow> which_i_choose ctx = int i \<Longrightarrow> split_loop fuel n pile ctx =
     (if length xs - i \<le> fuel then Inr (pile @ map (root_put n) (drop i xs)) else Inl Loop)"
proof (induction fuel arbitrary: i pile ctx)
  case 0
  then show ?case by simp
next
  case (Suc fuel)
  have root: "expression_tree_mutator split_rel n (ctx\<lparr>stop := False\<rparr>) =
      bnd (choose_arg xs (ctx\<lparr>stop := False\<rparr>)) (\<lambda>(t, c). Inr (root_put n t, c))"
    using split_root [OF assms(1)] assms(2) by simp
  have d: "drop i xs = xs ! i # drop (Suc i) xs" using Suc.prems(1) by (rule Cons_nth_drop_Suc [symmetric])
  have nth: "lnth xs (int i) = Inr (xs ! i)" using Suc.prems(1) by (simp add: lnth_def)
  show ?case
  proof (cases "Suc i = length xs")
    case True
    then have "drop (Suc i) xs = []" "length xs - i = 1" "int (length xs) = int i + 1" by auto
    then show ?thesis using Suc.prems(2) nth d by (simp add: root choose_arg_def)
  next
    case False
    then have ne: "int (length xs) \<noteq> int i + 1" and lt: "Suc i < length xs" using Suc.prems(1) by auto
    let ?c = "ctx\<lparr>stop := True, which_i_choose := int i + 1, have_to_duplicate := True\<rparr>"
    have "split_loop (Suc fuel) n pile ctx = split_loop fuel n (pile @ [root_put n (xs ! i)]) ?c"
      using Suc.prems(2) nth ne by (simp add: root choose_arg_def)
    then show ?thesis using Suc.IH [OF lt, of ?c] d lt by auto
  qed
qed

lemma split_loop_none:
  assumes "plain n" and "root_args n = None"
  shows "have_to_duplicate ctx \<Longrightarrow> split_loop fuel n pile ctx = Inl Loop"
  by (induction fuel arbitrary: pile ctx) (simp_all add: split_root [OF assms(1)] assms(2))

lemma pile_loop_returns:
  assumes "\<forall>n \<in> set pile. plain n \<and> \<not> is_or n" and "sum_list (map steps pile) < fuel"
  shows "\<exists>rs. pile_loop fuel pile result = Inr (result @ rs) \<and> set rs = set (concat (map dnf pile))"
  using assms
proof (induction fuel arbitrary: pile result)
  case 0
  then show ?case by simp
next
  case (Suc fuel)
  show ?case
  proof (cases pile)
    case Nil
    then show ?thesis by simp
  next
    case (Cons n ns)
    then have n: "plain n" "\<not> is_or n" and ns: "\<forall>n \<in> set ns. plain n \<and> \<not> is_or n" using Suc.prems(1) by auto
    show ?thesis
    proof (cases "or_args n")
      case None
      then have "steps n = 1" "dnf n = [n]" by (simp_all add: steps.simps [of n] dnf.simps [of n])
      then obtain rs where "pile_loop fuel ns (result @ [n]) = Inr ((result @ [n]) @ rs)"
          "set rs = set (concat (map dnf ns))"
        using Suc.IH [OF ns, of "result @ [n]"] Suc.prems(2) Cons by auto
      then show ?thesis
        using None Cons n have_to_split_spec(1) [of n "()"] \<open>dnf n = [n]\<close> by (intro exI [of _ "n # rs"]) auto
    next
      case (Some xs)
      have xs: "xs \<noteq> []" "\<forall>a \<in> set xs. plain a" using plain_or_args(1) [OF n(1) Some] by auto
      have st: "steps n = Suc (sum_list (map (\<lambda>t. steps (put n t)) xs))"
        and df: "dnf n = concat (map (\<lambda>t. dnf (put n t)) xs)"
        by (simp_all add: steps.simps [of n] dnf.simps [of n] Some)
      have "length xs \<le> sum_list (map (\<lambda>t. steps (put n t)) xs)"
        by (induction xs) (simp_all add: steps.simps)
      then have len: "length xs \<le> fuel" using Suc.prems(2) Cons st by simp
      let ?p = "ns @ map (put n) xs"
      have "split_loop fuel n ns make_context_split = Inr ?p"
        using split_loop_spec [of n xs 0 make_context_split fuel ns] n xs len Some root_not_or [OF n(2)]
        by (simp add: make_context_split_def)
      moreover have "\<forall>n \<in> set ?p. plain n \<and> \<not> is_or n"
        using ns n xs plain_put(1) put_not_or by auto
      then obtain rs where "pile_loop fuel ?p result = Inr (result @ rs)" "set rs = set (concat (map dnf ?p))"
        using Suc.IH [of ?p result] Suc.prems(2) Cons st by (auto simp: comp_def)
      ultimately show ?thesis
        using Some Cons n have_to_split_spec(1) [of n "()"] df by (intro exI [of _ rs]) auto
    qed
  qed
qed

lemma pile_loop_diverges:
  assumes "\<forall>n \<in> set pile. plain n" and "\<exists>n \<in> set pile. is_or n"
  shows "pile_loop fuel pile result = Inl Loop"
  using assms
proof (induction fuel arbitrary: pile result)
  case 0
  then show ?case by simp
next
  case (Suc fuel)
  then obtain n ns where pile: "pile = n # ns" by (cases pile) auto
  then have n: "plain n" using Suc.prems by auto
  show ?case
  proof (cases "or_args n")
    case None
    then have "\<not> is_or n" by (cases n rule: is_or.cases) auto
    then show ?thesis using Suc pile None have_to_split_spec(1) [OF n, of "()"] by auto
  next
    case (Some xs)
    have "split_loop fuel n ns make_context_split = Inl Loop \<or>
      (\<exists>ys. split_loop fuel n ns make_context_split = Inr (ns @ ys) \<and> ys \<noteq> [] \<and>
            (\<forall>y \<in> set ys. plain y \<and> is_or y = is_or n))"
    proof (cases "root_args n")
      case None
      then show ?thesis using split_loop_none [OF n] by (simp add: make_context_split_def)
    next
      case (Some zs)
      from split_loop_spec [OF n Some, of 0 make_context_split fuel ns] plain_root_args [OF n Some]
      show ?thesis
        using plain_root_put [OF n] root_put_or by (auto simp: make_context_split_def split: if_splits)
    qed
    then show ?thesis
    proof (elim disjE exE conjE)
      assume "split_loop fuel n ns make_context_split = Inl Loop"
      then show ?thesis using pile Some have_to_split_spec(1) [OF n, of "()"] by simp
    next
      fix ys assume ys: "split_loop fuel n ns make_context_split = Inr (ns @ ys)" "ys \<noteq> []"
        "\<forall>y \<in> set ys. plain y \<and> is_or y = is_or n"
      have "\<exists>y \<in> set (ns @ ys). is_or y"
        using ys(2,3) Suc.prems(2) pile by (cases ys) auto
      then have "pile_loop fuel (ns @ ys) result = Inl Loop"
        using ys(3) Suc.prems(1) pile by (intro Suc.IH) auto
      then show ?thesis using ys(1) pile Some have_to_split_spec(1) [OF n, of "()"] by simp
    qed
  qed
qed

subsection \<open>Truth of a condition and of its parts\<close>

text \<open>Conditions without negation.\<close>

fun negfree :: "node \<Rightarrow> bool" where
  "negfree (OpExpr opno f args) \<longleftrightarrow> (\<forall>a \<in> set args. atom a)"
| "negfree (NullTest t arg r l) \<longleftrightarrow> atom arg"
| "negfree (BoolExpr b args l) \<longleftrightarrow> b \<noteq> NOT_EXPR \<and> args \<noteq> [] \<and> (\<forall>a \<in> set args. negfree a)"
| "negfree _ \<longleftrightarrow> False"

lemma negfree_plain: "negfree n \<Longrightarrow> plain n"
  by (induction n rule: negfree.induct) auto

lemma negfree_or_args:
  "negfree n \<Longrightarrow> or_args n = Some xs \<Longrightarrow> \<forall>a \<in> set xs. negfree a"
  "\<forall>a \<in> set ns. negfree a \<Longrightarrow> or_args_list ns = Some xs \<Longrightarrow> \<forall>a \<in> set xs. negfree a"
  by (induction n and ns arbitrary: xs and xs rule: or_args_or_args_list.induct)
     (auto split: if_splits option.splits)

lemma negfree_put:
  "negfree n \<Longrightarrow> negfree t \<Longrightarrow> negfree (put n t)"
  "\<forall>a \<in> set ns. negfree a \<Longrightarrow> negfree t \<Longrightarrow> \<forall>a \<in> set (put_list ns t). negfree a"
  by (induction n t and ns t rule: put_put_list.induct) auto

lemma put_true:
  "negfree n \<Longrightarrow> or_args n = Some xs \<Longrightarrow>
     is_true (ExecEvalExpr ec n) \<longleftrightarrow> (\<exists>t \<in> set xs. is_true (ExecEvalExpr ec (put n t)))"
  "\<forall>a \<in> set ns. negfree a \<Longrightarrow> or_args_list ns = Some xs \<Longrightarrow>
     (\<forall>a \<in> set ns. is_true (ExecEvalExpr ec a)) \<longleftrightarrow>
     (\<exists>t \<in> set xs. \<forall>a \<in> set (put_list ns t). is_true (ExecEvalExpr ec a))"
proof (induction n and ns arbitrary: xs and xs rule: or_args_or_args_list.induct)
  case (1 b args l)
  then show ?case by (cases b) (auto simp del: ExecEvalAnd.simps ExecEvalOr.simps)
next
  case (4 a as)
  then show ?case by (auto split: option.splits)
qed simp_all

lemma dnf_true:
  "negfree n \<Longrightarrow> is_true (ExecEvalExpr ec n) \<longleftrightarrow> (\<exists>t \<in> set (dnf n). is_true (ExecEvalExpr ec t))"
proof (induction n rule: dnf.induct)
  case (1 n)
  show ?case
  proof (cases "or_args n")
    case None
    then show ?thesis by (simp add: dnf.simps [of n])
  next
    case (Some xs)
    have m: "negfree (put n t)" if "t \<in> set xs" for t
      using negfree_put(1) [OF 1(2), of t] negfree_or_args(1) [OF 1(2) Some] that by simp
    have "is_true (ExecEvalExpr ec (put n t)) \<longleftrightarrow> (\<exists>u \<in> set (dnf (put n t)). is_true (ExecEvalExpr ec u))"
      if "t \<in> set xs" for t
      using 1(1) [OF Some that m [OF that]] .
    then show ?thesis
      using put_true(1) [OF 1(2) Some, of ec] by (simp add: dnf.simps [of n] Some)
  qed
qed

lemma dnf_no_or: "t \<in> set (dnf n) \<Longrightarrow> or_args t = None"
proof (induction n arbitrary: t rule: dnf.induct)
  case (1 n)
  then show ?case by (cases "or_args n") (auto simp: dnf.simps [of n])
qed

lemma trueSplit_dnf:
  assumes "plain n" and "\<not> is_or n" and "steps n < fuel"
  shows "\<exists>rs. trueSplit fuel n = Inr rs \<and> set rs = set (dnf n)"
  using pile_loop_returns [of "[n]" fuel "[]"] assms by (auto simp: trueSplit_def)

lemma dnf_ne: "plain n \<Longrightarrow> dnf n \<noteq> []"
proof (induction n rule: dnf.induct)
  case (1 n)
  show ?case
  proof (cases "or_args n")
    case None
    then show ?thesis by (simp add: dnf.simps [of n])
  next
    case (Some xs)
    then have "hd xs \<in> set xs" "plain (put n (hd xs))"
      using plain_or_args(1) [OF 1(2) Some] plain_put(1) [OF 1(2)] by auto
    then show ?thesis using 1(1) [OF Some] Some by (force simp: dnf.simps [of n])
  qed
qed

subsection \<open>Properties\<close>

text \<open>Truth of \<open>NOT EXISTS\<close> over the rows of a query, for every condition put into the query.\<close>

definition exists_over :: "econtext \<Rightarrow> econtext set \<Rightarrow> query_misc \<Rightarrow> node list \<Rightarrow> node list \<Rightarrow> node list \<Rightarrow> bool" where
  "exists_over ec rows q rtable fromlist targetList \<longleftrightarrow>
     (\<forall>quals. other_value ec (SubLink EXISTS_SUBLINK [] Null (Query q rtable (FromExpr fromlist quals) targetList)) =
        Some (BoolGetDatum (\<exists>row \<in> rows. ExecQual row [quals] False)))"

lemma not_exists_over:
  assumes "exists_over ec rows q rtable fromlist targetList"
  shows "ExecEvalExpr ec (not_exists (Query q rtable (FromExpr fromlist t) targetList)) =
     Some (BoolGetDatum (\<forall>row \<in> rows. \<not> is_true (ExecEvalExpr row t)))"
    and "ExecEvalExpr ec (BoolExpr NOT_EXPR [SubLink EXISTS_SUBLINK [] Null (Query q rtable (FromExpr fromlist t) targetList)] l) =
     Some (BoolGetDatum (\<forall>row \<in> rows. \<not> is_true (ExecEvalExpr row t)))"
  using assms by (simp_all add: exists_over_def not_exists_def makeBoolExpr_def ExecEvalNot_def ExecQual_false
      del: ExecQual.simps)

lemma optimize_split_eval:
  assumes "exists_over ec rows q rtable fromlist targetList" and "trueSplit fuel quals = Inr rs" and "rs \<noteq> []"
  shows "\<exists>n'. optimize_split fuel (Query q rtable (FromExpr fromlist quals) targetList) = Inr n' \<and>
     is_true (ExecEvalExpr ec n') = (\<forall>t \<in> set rs. \<forall>row \<in> rows. \<not> is_true (ExecEvalExpr row t)) \<and>
     is_false (ExecEvalExpr ec n') = (\<exists>t \<in> set rs. \<exists>row \<in> rows. is_true (ExecEvalExpr row t))"
  using assms(2,3) not_exists_over(1) [OF assms(1)]
  by (cases rs) (auto simp: optimize_split_def Let_def makeBoolExpr_def lnth_def
      simp del: ExecEvalAnd.simps)

text \<open>
  C4. \<open>trueSplit\<close> on a condition built from comparisons and null tests of columns and constants with AND, OR and NOT.
  With a disjunction at the root its loop never ends, whatever the number of rounds; otherwise it
  returns within \<open>steps\<close> rounds, and the conditions it returns are those that choose one argument of
  every disjunction.
\<close>

theorem trueSplit_termination:
  assumes "plain n"
  shows "if is_or n then \<forall>fuel. trueSplit fuel n = Inl Loop
         else \<forall>fuel. steps n < fuel \<longrightarrow>
                (\<exists>rs. trueSplit fuel n = Inr rs \<and> rs \<noteq> [] \<and> set rs = set (dnf n) \<and> (\<forall>t \<in> set rs. or_args t = None))"
proof (cases "is_or n")
  case True
  then show ?thesis using assms pile_loop_diverges [of "[n]"] by (simp add: trueSplit_def)
next
  case False
  have "\<exists>rs. trueSplit fuel n = Inr rs \<and> rs \<noteq> [] \<and> set rs = set (dnf n) \<and> (\<forall>t \<in> set rs. or_args t = None)"
    if f: "steps n < fuel" for fuel
  proof -
    obtain rs where rs: "trueSplit fuel n = Inr rs" "set rs = set (dnf n)"
      using trueSplit_dnf [OF assms False f] by blast
    moreover have "rs \<noteq> []" using rs(2) dnf_ne [OF assms] by auto
    moreover have "\<forall>t \<in> set rs. or_args t = None" using rs(2) dnf_no_or by simp
    ultimately show ?thesis by blast
  qed
  then show ?thesis using False by simp
qed

definition sample_cmp :: "int \<Rightarrow> node" where
  "sample_cmp a = OpExpr 518 [] [Var (zero_var\<lparr>varno := 1, varattno := a\<rparr>), makeConst 23 (-1) 0 4 1 False True]"

definition sample_or :: node where
  "sample_or = BoolExpr OR_EXPR [sample_cmp 1, sample_cmp 2] 0"

lemma sample_or_plain [simp]: "plain sample_or" "negfree sample_or"
  by (simp_all add: sample_or_def sample_cmp_def makeConst_def)

lemma sample_steps: "steps (BoolExpr AND_EXPR [sample_or] 0) = 3"
  by (simp add: sample_or_def sample_cmp_def steps.simps [of "BoolExpr b args l" for b args l])

theorem trueSplit_termination_witness:
  "trueSplit 1000 sample_or = Inl Loop \<and> (\<exists>rs. trueSplit 4 (BoolExpr AND_EXPR [sample_or] 0) = Inr rs)"
proof -
  have "is_or sample_or" "\<not> is_or (BoolExpr AND_EXPR [sample_or] 0)" by (simp_all add: sample_or_def)
  moreover have "plain (BoolExpr AND_EXPR [sample_or] 0)" by simp
  ultimately show ?thesis
    using trueSplit_termination [of sample_or] trueSplit_termination [of "BoolExpr AND_EXPR [sample_or] 0"]
      sample_steps by auto
qed

text \<open>
  C5. Splitting keeps the meaning of \<open>NOT EXISTS\<close>: when the condition of the sub-query has no negation
  and no disjunction at its root, \<open>optimize_split\<close> returns a condition that is true, and false, exactly
  when the original \<open>NOT EXISTS\<close> is, whatever rows the FROM clause of the sub-query produces.
\<close>

theorem optimize_split_equivalent:
  assumes "negfree quals" and "\<not> is_or quals" and "steps quals < fuel"
    and "exists_over ec rows q rtable fromlist targetList"
  shows "\<exists>n'. optimize_split fuel (Query q rtable (FromExpr fromlist quals) targetList) = Inr n' \<and>
     is_true (ExecEvalExpr ec n') =
       is_true (ExecEvalExpr ec (BoolExpr NOT_EXPR [SubLink EXISTS_SUBLINK [] Null (Query q rtable (FromExpr fromlist quals) targetList)] l)) \<and>
     is_false (ExecEvalExpr ec n') =
       is_false (ExecEvalExpr ec (BoolExpr NOT_EXPR [SubLink EXISTS_SUBLINK [] Null (Query q rtable (FromExpr fromlist quals) targetList)] l))"
proof -
  note p = negfree_plain [OF assms(1)]
  obtain rs where rs: "trueSplit fuel quals = Inr rs" "set rs = set (dnf quals)"
    using trueSplit_dnf [OF p assms(2,3)] by blast
  then have "rs \<noteq> []" using dnf_ne [OF p] by auto
  with optimize_split_eval [OF assms(4) rs(1)] rs(2) dnf_true [OF assms(1)] not_exists_over(2) [OF assms(4)]
  show ?thesis by auto
qed

definition sample_rows :: "econtext set" where
  "sample_rows = {\<lparr>var_value = (\<lambda>l n a. Some a), op_function = (\<lambda>opno ds. Some (BoolGetDatum (hd ds \<noteq> last ds))),
     other_value = (\<lambda>n. None)\<rparr>}"

definition sample_exists :: econtext where
  "sample_exists =
     \<lparr>var_value = (\<lambda>l n a. None), op_function = (\<lambda>opno ds. None),
      other_value = (\<lambda>n. case n of
          SubLink t f e (Query q rt (FromExpr fl quals) ts) \<Rightarrow>
            Some (BoolGetDatum (\<exists>row \<in> sample_rows. ExecQual row [quals] False))
        | _ \<Rightarrow> None)\<rparr>"

theorem optimize_split_equivalent_witness:
  "\<exists>n'. optimize_split 4 (Query zero_query [] (FromExpr [] (BoolExpr AND_EXPR [sample_or] 0)) []) = Inr n' \<and>
     is_false (ExecEvalExpr sample_exists n')"
proof -
  let ?n = "BoolExpr AND_EXPR [sample_or] 0"
  have over: "exists_over sample_exists sample_rows zero_query [] [] []"
    by (simp add: exists_over_def sample_exists_def del: ExecQual.simps)
  have "\<exists>row \<in> sample_rows. is_true (ExecEvalExpr row ?n)"
    by (simp add: sample_rows_def sample_or_def sample_cmp_def makeConst_def
        ExecMakeFunctionResultNoSets_def zero_var_def del: ExecEvalAnd.simps ExecEvalOr.simps)
  then have "is_false (ExecEvalExpr sample_exists (BoolExpr NOT_EXPR
      [SubLink EXISTS_SUBLINK [] Null (Query zero_query [] (FromExpr [] ?n) [])] 0))"
    unfolding not_exists_over(2) [OF over] by simp
  then show ?thesis
    using optimize_split_equivalent [OF _ _ _ over, of ?n 4 0] sample_steps by auto
qed

lemma pile_loop_plain:
  assumes "plain n" and "or_args n = None"
  shows "pile_loop (Suc fuel) (n # pile) result = pile_loop fuel pile (result @ [n])"
  using assms have_to_split_spec(1) [of n "()"] by simp

lemma pile_loop_split:
  assumes "plain n" and "\<not> is_or n" and "or_args n = Some xs" and "length xs \<le> fuel"
  shows "pile_loop (Suc fuel) (n # pile) result = pile_loop fuel (pile @ map (put n) xs) result"
proof -
  have "split_loop fuel n pile make_context_split = Inr (pile @ map (put n) xs)"
    using split_loop_spec [of n xs 0 make_context_split fuel pile] assms plain_or_args(1) [OF assms(1,3)]
      root_not_or [OF assms(2)]
    by (simp add: make_context_split_def)
  then show ?thesis using assms have_to_split_spec(1) [of n "()"] by simp
qed

text \<open>
  C17. Under a negation the split changes the meaning. For every two comparisons \<open>a\<close> and \<open>b\<close>, the
  condition \<open>NOT (a OR b)\<close> is split into \<open>NOT a\<close> and \<open>NOT b\<close>, which the pass combines as alternatives.
  The condition is true exactly when both parts are true, so a row where one of them holds falsifies
  the \<open>NOT EXISTS\<close> the pass builds but not the original one.
\<close>

theorem trueSplit_under_not:
  assumes "plain a" "plain b" "or_args a = None" "or_args b = None"
  shows "\<exists>n1 n2. trueSplit 4 (BoolExpr AND_EXPR [BoolExpr NOT_EXPR [BoolExpr OR_EXPR [a, b] l] l] l) = Inr [n1, n2] \<and>
    (\<forall>ec. is_true (ExecEvalExpr ec (BoolExpr AND_EXPR [BoolExpr NOT_EXPR [BoolExpr OR_EXPR [a, b] l] l] l)) \<longleftrightarrow>
            is_true (ExecEvalExpr ec n1) \<and> is_true (ExecEvalExpr ec n2)) \<and>
    (\<forall>ec. is_true (ExecEvalExpr ec n1) \<longleftrightarrow> is_false (ExecEvalExpr ec a)) \<and>
    (\<forall>ec. is_true (ExecEvalExpr ec n2) \<longleftrightarrow> is_false (ExecEvalExpr ec b))"
proof -
  let ?n = "\<lambda>x. BoolExpr AND_EXPR [BoolExpr NOT_EXPR [x] l] l"
  let ?m = "?n (BoolExpr OR_EXPR [a, b] l)"
  have m: "plain ?m" "\<not> is_or ?m" "or_args ?m = Some [a, b]" using assms by simp_all
  have "pile_loop 4 [?m] [] = pile_loop 3 [?n a, ?n b] []"
    using pile_loop_split [OF m, of 3 "[]" "[]"] by (simp add: eval_nat_numeral)
  also have "\<dots> = pile_loop 2 [?n b] [?n a]"
    using pile_loop_plain [of "?n a" 2 "[?n b]" "[]"] assms by (simp add: eval_nat_numeral)
  also have "\<dots> = pile_loop 1 [] [?n a, ?n b]"
    using pile_loop_plain [of "?n b" 1 "[]" "[?n a]"] assms by (simp add: eval_nat_numeral)
  finally have "trueSplit 4 ?m = Inr [?n a, ?n b]" by (simp add: trueSplit_def)
  then show ?thesis by (intro exI conjI) (auto simp del: ExecEvalAnd.simps ExecEvalOr.simps)
qed

theorem trueSplit_under_not_witness:
  "\<exists>n1 n2. trueSplit 4 (BoolExpr AND_EXPR [BoolExpr NOT_EXPR [sample_or] 0] 0) = Inr [n1, n2] \<and>
    (\<exists>row \<in> sample_rows. is_true (ExecEvalExpr row n1) \<and>
       \<not> is_true (ExecEvalExpr row (BoolExpr AND_EXPR [BoolExpr NOT_EXPR [sample_or] 0] 0)))"
proof -
  have p: "plain (sample_cmp i)" "or_args (sample_cmp i) = None" for i
    by (simp_all add: sample_cmp_def makeConst_def)
  have row: "is_false (ExecEvalExpr row (sample_cmp 1))" "\<not> is_false (ExecEvalExpr row (sample_cmp 2))"
    if "row \<in> sample_rows" for row
    using that by (auto simp: sample_rows_def sample_cmp_def makeConst_def ExecMakeFunctionResultNoSets_def zero_var_def)
  have "sample_rows \<noteq> {}" by (simp add: sample_rows_def)
  then show ?thesis
    using trueSplit_under_not [OF p(1) p(1) p(2) p(2), of 1 2 0] row unfolding sample_or_def by fast
qed


lemma sample_split_deep: "mutator_split_deep fuel (FromExpr [] (sample_cmp 1)) s = Inr (FromExpr [] (sample_cmp 1), s)"
  by (simp add: sample_cmp_def makeConst_def mutator_split_deep.simps expression_tree_mutator_simps mutate_list_def)


end
