(* ===== verification/Pg_List_Update.thy ===== *)
theory Pg_List_Update
  imports Pg_List_Sets
begin

section \<open>Prepending, truncating, deleting and freeing\<close>

text \<open>
  The remaining operations of \<open>list.c\<close> that update a list in place: what list they leave behind,
  which cells they release and what they do not touch.
\<close>

subsection \<open>Prepending\<close>

lemma lcons_with_yields:
  assumes ok: "mem_ok m" and rep: "list_rep m l tag cs"
  shows "yields m (footprint l cs) tag (v # map snd cs) (lcons_with tag m v l)"
proof (cases "l = 0")
  case True
  then have "lcons_with tag m v l = lappend_with tag m l v"
    by (simp add: lcons_with_def lappend_with_def new_list_def palloc_def load_list_def)
  with True lappend_with_yields [OF ok rep, of v] rep show ?thesis by simp
next
  case False
  define m' where "m' = m\<lparr>heap := (heap m)(brk m \<mapsto> ListCell \<lparr>cdata = v, cnext = fst (hd cs)\<rparr>,
      l \<mapsto> ListHdr \<lparr>ltype = tag, llength = int (length cs) + 1, lhead = brk m, ltail = fst (last cs)\<rparr>),
      brk := Suc (brk m)\<rparr>"
  have hl: "heap m l \<noteq> None" "cs \<noteq> []" "chain m (fst (hd cs)) cs"
    using rep False by (simp_all add: list_rep_def)
  then have lt: "l < brk m" "brk m \<noteq> 0" using mem_ok_brk [OF ok] ok by (auto simp: mem_ok_def)
  have "lcons_with tag m v l = Inr (l, m')"
    using False lt list_rep_load [OF rep False]
    by (simp add: lcons_with_def new_head_cell_def palloc_def store_list_def load_list_def set_data_def
        load_cell_def store_cell_def m'_def fun_upd_twist)
  moreover have "mem_ok m'" using ok lt False by (auto simp: mem_ok_def m'_def)
  moreover have "agree (footprint l cs) m m'"
    using False by (auto simp: agree_def m'_def footprint_def)
  moreover have "heap m' a = heap m a" if "a \<in> addrs cs" for a
  proof -
    have "a \<noteq> l" using that list_rep_hdr_not_cell [OF rep False] by auto
    moreover have "a \<noteq> brk m" using that seg_allocated [OF hl(3)] mem_ok_heap_brk [OF ok] by fastforce
    ultimately show ?thesis by (simp add: m'_def)
  qed
  then have "chain m' (fst (hd cs)) cs" using hl(3) seg_cong [of cs m' m] by blast
  then have "list_rep m' l tag ((brk m, v) # cs)"
    using False lt hl(2) by (simp add: list_rep_def m'_def)
  moreover have "footprint l ((brk m, v) # cs) \<subseteq> footprint l cs \<union> {a. brk m \<le> a}"
    using False by (auto simp: footprint_def)
  ultimately show ?thesis by (intro yieldsI) auto
qed

subsection \<open>Freeing\<close>

definition freed :: "nat set \<Rightarrow> 'o mem \<Rightarrow> 'o mem" where
  "freed A m = m\<lparr>heap := (\<lambda>a. if a \<in> A then None else heap m a)\<rparr>"

lemma freed_simps [simp]:
  "heap (freed A m) a = (if a \<in> A then None else heap m a)" "brk (freed A m) = brk m"
  "freed {} m = m" "freed A (freed B m) = freed (A \<union> B) m"
  by (simp_all add: freed_def fun_eq_iff)

lemma mem_ok_freed: "mem_ok m \<Longrightarrow> mem_ok (freed A m)"
  by (simp add: mem_ok_def)

lemma agree_freed: "agree A m (freed A m)"
  by (simp add: agree_def)

lemma pfree_freed: "mem_ok m \<Longrightarrow> heap m p \<noteq> None \<Longrightarrow> pfree m p = Inr (freed {p} m)"
  by (cases "p = 0") (auto simp: pfree_def mem_ok_def freed_def fun_upd_def fun_eq_iff)

lemma free_loop_chain:
  "mem_ok m \<Longrightarrow> chain m p cs \<Longrightarrow> length cs < fuel \<Longrightarrow> free_loop fuel m False p = Inr (freed (addrs cs) m)"
proof (induction cs arbitrary: p fuel m)
  case Nil
  then show ?case by (cases fuel) auto
next
  case (Cons c cs)
  obtain a d where c: "c = (a, d)" by (cases c)
  with Cons.prems obtain n f where n: "p = a" "a \<noteq> 0" "heap m a = Some (ListCell \<lparr>cdata = d, cnext = n\<rparr>)"
    "chain m n cs" "fuel = Suc f" "length cs < f"
    by (cases fuel) auto
  have "a \<notin> addrs cs" using chain_distinct [OF Cons.prems(2)] c by auto
  then have "heap (freed {a} m) b = heap m b" if "b \<in> addrs cs" for b using that by auto
  then have "chain (freed {a} m) n cs" using n(4) seg_cong by blast
  from Cons.IH [OF mem_ok_freed [OF Cons.prems(1)] this n(6)] n c pfree_freed [OF Cons.prems(1), of a]
  show ?case by (simp add: load_cell_def)
qed

lemma list_free_rep:
  assumes "mem_ok m" and "list_rep m l tag cs"
  shows "list_free m l = Inr (freed (footprint l cs) m)"
proof (cases "l = 0")
  case True
  then show ?thesis by (simp add: list_free_def list_free_private_def list_head_def loop_fuel_def)
next
  case False
  have "heap (freed (addrs cs) m) l \<noteq> None"
    using assms(2) False list_rep_hdr_not_cell [OF assms(2) False] by (simp add: list_rep_def)
  then show ?thesis
    using False list_head_rep [OF assms(2)] list_rep_chain [OF assms(2)]
      free_loop_chain [OF assms(1) list_rep_chain [OF assms(2)] chain_length_fuel [OF assms(1) list_rep_chain [OF assms(2)]]]
      pfree_freed [OF mem_ok_freed [OF assms(1)], of "addrs cs" l]
    by (simp add: list_free_def list_free_private_def footprint_def)
qed

text \<open>Freeing the elements too. A null element, which is not a chunk, makes it fail.\<close>

lemma free_loop_deep:
  "mem_ok m \<Longrightarrow> chain m p cs \<Longrightarrow> length cs < fuel \<Longrightarrow> map snd cs = map Ptr ps \<Longrightarrow> distinct ps \<Longrightarrow>
   (\<forall>q \<in> set ps. heap m q \<noteq> None) \<Longrightarrow> addrs cs \<inter> set ps = {} \<Longrightarrow>
   free_loop fuel m True p = Inr (freed (addrs cs \<union> set ps) m)"
proof (induction cs arbitrary: p fuel m ps)
  case Nil
  then show ?case by (cases fuel) auto
next
  case (Cons c cs)
  from Cons.prems(4) obtain a q qs where c: "c = (a, Ptr q)" "ps = q # qs" "map snd cs = map Ptr qs"
    by (cases c; cases ps) auto
  with Cons.prems obtain n f where n: "p = a" "a \<noteq> 0" "heap m a = Some (ListCell \<lparr>cdata = Ptr q, cnext = n\<rparr>)"
    "chain m n cs" "fuel = Suc f" "length cs < f"
    by (cases fuel) auto
  let ?m = "freed {a} (freed {q} m)"
  have na: "a \<notin> addrs cs" using chain_distinct [OF Cons.prems(2)] c by auto
  have "heap ?m b = heap m b" if "b \<in> addrs cs" for b using that na Cons.prems(7) c by auto
  then have "chain ?m n cs = chain m n cs" by (rule seg_cong)
  then have "free_loop f ?m True n = Inr (freed (addrs cs \<union> set qs) ?m)"
    by (intro Cons.IH) (use n c Cons.prems mem_ok_freed in auto)
  moreover have "pfree m q = Inr (freed {q} m)" "pfree (freed {q} m) a = Inr ?m"
    using pfree_freed [OF Cons.prems(1), of q] pfree_freed [OF mem_ok_freed [OF Cons.prems(1)], of "{q}" a]
      Cons.prems(6,7) c n(3) by auto
  ultimately show ?case using n c by (simp add: load_cell_def Un_commute insert_commute)
qed

lemma free_loop_null:
  "chain m p cs \<Longrightarrow> Ptr 0 \<in> snd ` set cs \<Longrightarrow> \<forall>a. heap m' a = None \<or> heap m' a = heap m a \<Longrightarrow>
   \<exists>e. free_loop fuel m' True p = Inl e"
proof (induction cs arbitrary: p fuel m')
  case Nil
  then show ?case by simp
next
  case (Cons c cs)
  obtain a d where c: "c = (a, d)" by (cases c)
  with Cons.prems(1) obtain n where n: "p = a" "a \<noteq> 0" "heap m a = Some (ListCell \<lparr>cdata = d, cnext = n\<rparr>)" "chain m n cs"
    by auto
  have step: "\<exists>e. free_loop f m2 True n = Inl e"
    if "d \<noteq> Ptr 0" "pfree m' q = Inr m1" "pfree m1 a = Inr m2" for f q m1 m2
    by (rule Cons.IH [OF n(4)])
       (use that c Cons.prems(2,3) in \<open>auto simp: pfree_def split: if_splits option.splits\<close>)
  show ?case
  proof (cases fuel)
    case (Suc f)
    show ?thesis
    proof (cases "free_loop fuel m' True p")
      case (Inr r)
      have "heap m' a \<noteq> None" using Inr Suc n(1,2) by (cases "heap m' a") (auto simp: load_cell_def)
      then have a: "heap m' a = heap m a" using spec [OF Cons.prems(3), of a] by auto
      then have "d \<noteq> Ptr 0" using Inr Suc n by (auto simp: load_cell_def pfree_def)
      moreover obtain q m1 m2 where "pfree m' q = Inr m1" "pfree m1 a = Inr m2" "free_loop f m2 True n = Inr r"
        using Inr Suc n(1,2,3) a by (auto simp: load_cell_def bnd_eq_Inr_iff)
      ultimately show ?thesis using step [of q m1 m2 f] by simp
    qed simp
  qed simp
qed

subsection \<open>Deleting a cell\<close>

lemma list_rep_ne: "list_rep m l tag cs \<Longrightarrow> cs \<noteq> [] \<Longrightarrow> l \<noteq> 0"
  by (cases "l = 0") simp_all

lemma chain_next: "seg m p ((a, d) # vs) 0 \<Longrightarrow> p = a \<and> a \<noteq> 0 \<and>
    heap m a = Some (ListCell \<lparr>cdata = d, cnext = (if vs = [] then 0 else fst (hd vs))\<rparr>) \<and>
    chain m (if vs = [] then 0 else fst (hd vs)) vs"
  using chain_hd [of m _ vs] by auto

text \<open>What the list looks like once the header and the cell before the deleted one are updated.\<close>

lemma delete_rep:
  assumes rep: "list_rep m l tag (us @ (a, d) # vs)" and ne: "us @ vs \<noteq> []"
    and hdr: "heap m' l = Some (ListHdr \<lparr>ltype = tag, llength = int (length (us @ vs)), lhead = fst (hd (us @ vs)),
        ltail = fst (last (us @ vs))\<rparr>)"
    and prev: "\<And>ws b e. us = ws @ [(b, e)] \<Longrightarrow>
        heap m' b = Some (ListCell \<lparr>cdata = e, cnext = (if vs = [] then 0 else fst (hd vs))\<rparr>)"
    and other: "\<And>c. c \<noteq> l \<Longrightarrow> c \<noteq> a \<Longrightarrow> (us = [] \<or> c \<noteq> fst (last us)) \<Longrightarrow> heap m' c = heap m c"
  shows "list_rep m' l tag (us @ vs)"
proof -
  have l: "l \<noteq> 0" by (rule list_rep_ne [OF rep]) simp
  let ?n = "if vs = [] then 0 else fst (hd vs)"
  have ch: "chain m (fst (hd (us @ (a, d) # vs))) (us @ (a, d) # vs)" using rep l by (simp add: list_rep_def)
  then have dist: "distinct (map fst (us @ (a, d) # vs))" by (rule chain_distinct)
  from ch obtain r where r: "seg m (fst (hd (us @ (a, d) # vs))) us r" "chain m r ((a, d) # vs)"
    by (auto simp: seg_append)
  have nl: "l \<notin> addrs (us @ (a, d) # vs)" using list_rep_hdr_not_cell [OF rep l] .
  have out: "heap m' c = heap m c" if "c \<in> addrs vs" for c
  proof (rule other)
    show "c \<noteq> l" "c \<noteq> a" using that nl dist by auto
    show "us = [] \<or> c \<noteq> fst (last us)" using that dist by (cases us rule: rev_cases) force+
  qed
  have "chain m' ?n vs = chain m ?n vs" by (rule seg_cong) (rule out)
  then have vs: "chain m' ?n vs" using chain_next [OF r(2)] by simp
  have "chain m' (fst (hd (us @ vs))) (us @ vs)"
  proof (cases us rule: rev_cases)
    case Nil
    then show ?thesis using vs ne by (simp split: if_splits)
  next
    case (snoc ws c)
    obtain b e where c: "c = (b, e)" by (cases c)
    have "seg m' (fst (hd us)) (ws @ [(b, e)]) ?n"
    proof (rule seg_redirect [where m = m and d = e and q = r])
      show "seg m (fst (hd us)) (ws @ [(b, e)]) r" using r(1) snoc c by (cases ws) simp_all
      show "b \<notin> addrs ws" using dist snoc c by auto
      show "heap m' b = Some (ListCell \<lparr>cdata = e, cnext = ?n\<rparr>)" using prev [of ws b e] snoc c by simp
      show "heap m' x = heap m x" if "x \<in> addrs ws" for x
        by (rule other) (use that dist nl snoc c in auto)
    qed
    then have "chain m' (fst (hd us)) (us @ vs)" using vs snoc c unfolding seg_append [of m' _ us vs] by auto
    moreover have "hd (us @ vs) = hd us" using snoc by (cases ws) simp_all
    ultimately show ?thesis by simp
  qed
  then show ?thesis using hdr l ne by (simp add: list_rep_def)
qed

lemma deleted_cell:
  assumes rep: "list_rep m l tag (us @ (a, d) # vs)" and ne: "us @ vs \<noteq> []"
  defines "n \<equiv> (if vs = [] then 0 else fst (hd vs))" and "p \<equiv> (if us = [] then 0 else fst (last us))"
  shows "a \<noteq> 0" and "heap m a = Some (ListCell \<lparr>cdata = d, cnext = n\<rparr>)"
    and "us \<noteq> [] \<Longrightarrow> p \<noteq> 0"
    and "p \<noteq> 0 \<Longrightarrow> p \<in> addrs us \<and> p \<noteq> a \<and> p \<noteq> l \<and> (\<exists>k. heap m p = Some (ListCell \<lparr>cdata = snd (last us), cnext = k\<rparr>))"
    and "(if fst (last (us @ (a, d) # vs)) = a then p else fst (last (us @ (a, d) # vs))) = fst (last (us @ vs))"
    and "(if p \<noteq> 0 then fst (hd (us @ (a, d) # vs)) else n) = fst (hd (us @ vs))"
    and "l \<noteq> a"
proof -
  have l: "l \<noteq> 0" by (rule list_rep_ne [OF rep]) simp
  have ch: "chain m (fst (hd (us @ (a, d) # vs))) (us @ (a, d) # vs)" using rep l by (simp add: list_rep_def)
  have dist: "distinct (map fst (us @ (a, d) # vs))" using ch by (rule chain_distinct)
  have nl: "l \<notin> addrs (us @ (a, d) # vs)" using list_rep_hdr_not_cell [OF rep l] .
  obtain r where "chain m r ((a, d) # vs)" using ch unfolding seg_append by blast
  from chain_next [OF this] show "a \<noteq> 0" "heap m a = Some (ListCell \<lparr>cdata = d, cnext = n\<rparr>)"
    unfolding n_def by simp_all
  show "l \<noteq> a" using nl by simp
  show last: "(if fst (last (us @ (a, d) # vs)) = a then p else fst (last (us @ (a, d) # vs))) = fst (last (us @ vs))"
    unfolding p_def using ne dist by (cases vs rule: rev_cases) auto
  have load: "p \<noteq> 0 \<and> (\<exists>k. heap m p = Some (ListCell \<lparr>cdata = snd (last us), cnext = k\<rparr>))" if "us \<noteq> []"
    using seg_load [OF ch, of "fst (last us)" "snd (last us)"] that unfolding p_def by simp
  then show p: "us \<noteq> [] \<Longrightarrow> p \<noteq> 0" by simp
  show "(if p \<noteq> 0 then fst (hd (us @ (a, d) # vs)) else n) = fst (hd (us @ vs))"
  proof (cases us)
    case Nil
    then show ?thesis using ne unfolding p_def n_def by simp
  next
    case (Cons u ws)
    then show ?thesis using p by simp
  qed
  assume "p \<noteq> 0"
  then have us: "us \<noteq> []" unfolding p_def by auto
  then have "p \<in> addrs us" unfolding p_def by simp
  moreover from this have "p \<noteq> a" "p \<noteq> l" using dist nl by auto
  ultimately show "p \<in> addrs us \<and> p \<noteq> a \<and> p \<noteq> l \<and> (\<exists>k. heap m p = Some (ListCell \<lparr>cdata = snd (last us), cnext = k\<rparr>))"
    using load [OF us] by simp
qed

lemma list_delete_cell_rep:
  assumes ok: "mem_ok m" and rep: "list_rep m l tag (us @ (a, d) # vs)"
  shows "\<exists>l' m'. list_delete_cell m l a (if us = [] then 0 else fst (last us)) = Inr (l', m') \<and> mem_ok m' \<and>
           agree (footprint l (us @ (a, d) # vs)) m m' \<and> list_rep m' l' tag (us @ vs) \<and> heap m' a = None \<and>
           (us @ vs \<noteq> [] \<longrightarrow> l' = l)"
proof (cases "us @ vs = []")
  case True
  have l: "l \<noteq> 0" by (rule list_rep_ne [OF rep]) simp
  then have "list_delete_cell m l a (if us = [] then 0 else fst (last us)) = Inr (0, freed {l, a} m)"
    using True list_rep_load [OF rep l] list_free_rep [OF ok rep]
    by (simp add: list_delete_cell_def footprint_def)
  then show ?thesis using True l mem_ok_freed [OF ok] agree_freed [of "{l, a}" m] by (simp add: footprint_def)
next
  case False
  have l: "l \<noteq> 0" by (rule list_rep_ne [OF rep]) simp
  define n where "n = (if vs = [] then 0 else fst (hd vs))"
  define p where "p = (if us = [] then 0 else fst (last us))"
  define m1 where "m1 = (if p = 0 then m else store_cell m p \<lparr>cdata = snd (last us), cnext = n\<rparr>)"
  define m2 where "m2 = store_list m1 l \<lparr>ltype = tag, llength = int (length (us @ vs)),
      lhead = fst (hd (us @ vs)), ltail = fst (last (us @ vs))\<rparr>"
  note del = deleted_cell [OF rep False, folded n_def p_def]
  have hl: "heap m l \<noteq> None" using rep l by (simp add: list_rep_def)
  have hp: "heap m p \<noteq> None \<and> p \<in> addrs us \<and> p \<noteq> a \<and> p \<noteq> l" if "p \<noteq> 0" using del(4) [OF that] by auto
  have "mem_ok m1" using mem_ok_store(1) [OF ok, of p] hp ok by (cases "p = 0") (auto simp: m1_def)
  moreover have "heap m1 l \<noteq> None" "heap m1 a \<noteq> None" using hl del(2) by (simp_all add: m1_def)
  ultimately have m2: "mem_ok m2" "heap m2 a \<noteq> None" using mem_ok_store(2) by (auto simp: m2_def)
  have ag: "agree (footprint l (us @ (a, d) # vs)) m m2"
    using l hp by (auto simp: m2_def m1_def agree_def footprint_def)
  have set: "(if p \<noteq> 0 then set_next m p n else Inr m) = Inr m1"
  proof (cases "p = 0")
    case False
    then show ?thesis using del(4) by (auto simp: m1_def set_next_def load_cell_def)
  qed (simp add: m1_def)
  have len: "int (length (us @ (a, d) # vs)) \<noteq> 1" using False by (cases us) auto
  have "load_cell m a = Inr \<lparr>cdata = d, cnext = n\<rparr>" using del(1,2) by (simp add: load_cell_def)
  then have "list_delete_cell m l a p = bnd (pfree m2 a) (\<lambda>m. Inr (l, m))"
    unfolding list_delete_cell_def list_rep_load [OF rep l] bnd_Inr list_hdr.simps if_not_P [OF len]
    by (simp only: bnd_Inr list_cell.simps list_hdr.simps set Let_def del(5,6) m2_def) simp
  then have "list_delete_cell m l a p = Inr (l, freed {a} m2)" using pfree_freed [OF m2(1,2)] by simp
  moreover have "agree (footprint l (us @ (a, d) # vs)) m (freed {a} m2)"
    using agree_trans [OF ag agree_mono [OF agree_freed]] l by (simp add: footprint_def)
  moreover have "list_rep (freed {a} m2) l tag (us @ vs)"
  proof (rule delete_rep [OF rep False])
    show "heap (freed {a} m2) l = Some (ListHdr \<lparr>ltype = tag, llength = int (length (us @ vs)),
        lhead = fst (hd (us @ vs)), ltail = fst (last (us @ vs))\<rparr>)"
      using del(7) by (simp add: m2_def)
    show "heap (freed {a} m2) b = Some (ListCell \<lparr>cdata = e, cnext = (if vs = [] then 0 else fst (hd vs))\<rparr>)"
      if "us = ws @ [(b, e)]" for ws b e
      using that del(3,4) by (simp add: m2_def m1_def n_def p_def)
    show "heap (freed {a} m2) c = heap m c" if "c \<noteq> l" "c \<noteq> a" "us = [] \<or> c \<noteq> fst (last us)" for c
      using that by (auto simp: m2_def m1_def p_def)
  qed
  moreover have "heap (freed {a} m2) a = None" by simp
  ultimately show ?thesis using mem_ok_freed [OF m2(1), of "{a}"] unfolding p_def
    by (intro exI [of _ l] exI [of _ "freed {a} m2"] conjI) simp_all
qed

fun remove_first :: "('a \<Rightarrow> bool) \<Rightarrow> 'a list \<Rightarrow> 'a list" where
  "remove_first P [] = []"
| "remove_first P (x # xs) = (if P x then xs else x # remove_first P xs)"

lemma remove_first_eq: "remove_first (\<lambda>y. y = x) xs = remove1 x xs"
  by (induction xs) auto

lemma delete_loop_yields:
  assumes ok: "mem_ok m" and rep: "list_rep m l tag (us @ ws)"
    and T: "\<And>d. d \<in> snd ` set ws \<Longrightarrow> test d = Inr (T d)" and fuel: "length ws < fuel"
  shows "yields m (footprint l (us @ ws)) tag (map snd us @ remove_first T (map snd ws))
    (delete_loop fuel m test l (if ws = [] then 0 else fst (hd ws)) (if us = [] then 0 else fst (last us)))"
  using rep T fuel
proof (induction ws arbitrary: us fuel)
  case Nil
  then show ?case by (cases fuel) (auto intro!: yieldsI [OF refl ok])
next
  case (Cons c ws)
  obtain a d where c: "c = (a, d)" by (cases c)
  obtain f where f: "fuel = Suc f" using Cons.prems(3) by (cases fuel) auto
  have l: "l \<noteq> 0" by (rule list_rep_ne [OF Cons.prems(1)]) simp
  have ch: "chain m (fst (hd (us @ c # ws))) (us @ c # ws)" using Cons.prems(1) l by (simp add: list_rep_def)
  then obtain r where "chain m r ((a, d) # ws)" unfolding seg_append c by blast
  from chain_next [OF this]
  have a: "a \<noteq> 0" "heap m a = Some (ListCell \<lparr>cdata = d, cnext = (if ws = [] then 0 else fst (hd ws))\<rparr>)"
    by simp_all
  have t: "test d = Inr (T d)" using Cons.prems(2) c by simp
  show ?case
  proof (cases "T d")
    case True
    obtain l' m' where d: "list_delete_cell m l a (if us = [] then 0 else fst (last us)) = Inr (l', m')" "mem_ok m'"
        "agree (footprint l (us @ c # ws)) m m'" "list_rep m' l' tag (us @ ws)" "us @ ws \<noteq> [] \<longrightarrow> l' = l"
      using list_delete_cell_rep [OF ok, of l tag us a d ws] Cons.prems(1) c by auto
    have "footprint l' (us @ ws) \<subseteq> footprint l (us @ c # ws)"
      using d(4,5) by (cases "us @ ws = []") (auto simp: footprint_def list_rep_def split: if_splits)
    then show ?thesis using d True a t c f by (intro yieldsI [of _ l' m']) (auto simp: load_cell_def)
  next
    case False
    have "yields m (footprint l ((us @ [c]) @ ws)) tag (map snd (us @ [c]) @ remove_first T (map snd ws))
      (delete_loop f m test l (if ws = [] then 0 else fst (hd ws)) (if us @ [c] = [] then 0 else fst (last (us @ [c]))))"
      by (rule Cons.IH) (use Cons.prems f in auto)
    then show ?thesis using False a t c f by (simp add: load_cell_def)
  qed
qed

lemma list_delete_with_yields:
  assumes ok: "mem_ok m" and rep: "list_rep m l tag cs" and T: "\<And>d. d \<in> snd ` set cs \<Longrightarrow> test d = Inr (T d)"
  shows "yields m (footprint l cs) tag (remove_first T (map snd cs)) (list_delete_with m test l)"
  using delete_loop_yields [OF ok, of l tag "[]" cs test T "loop_fuel m"] rep T
    chain_length_fuel [OF ok list_rep_chain [OF rep]] list_head_rep [OF rep]
  by (simp add: list_delete_with_def)

lemma list_delete_first_yields:
  assumes ok: "mem_ok m" and rep: "list_rep m l tag cs"
  shows "yields m (footprint l cs) tag (tl (map snd cs)) (list_delete_first m l)"
proof (cases cs)
  case Nil
  then have "l = 0" using rep by (simp add: list_rep_def split: if_splits)
  then show ?thesis using Nil ok by (auto simp: list_delete_first_def intro!: yieldsI)
next
  case (Cons c vs)
  have l: "l \<noteq> 0" by (rule list_rep_ne [OF rep]) (simp add: Cons)
  obtain a d where c: "c = (a, d)" by (cases c)
  obtain l' m' where r: "list_delete_cell m l a 0 = Inr (l', m')" "mem_ok m'" "agree (footprint l cs) m m'"
      "list_rep m' l' tag vs" "vs \<noteq> [] \<longrightarrow> l' = l"
    using list_delete_cell_rep [OF ok, of l tag "[]" a d vs] rep Cons c by auto
  have "footprint l' vs \<subseteq> footprint l cs"
    using r(4,5) Cons by (cases "vs = []") (auto simp: footprint_def list_rep_def split: if_splits)
  moreover have "list_delete_first m l = Inr (l', m')"
    using r(1) l list_head_rep [OF rep] Cons c by (simp add: list_delete_first_def)
  ultimately show ?thesis using r(2-4) Cons by (intro yieldsI [of _ l' m']) auto
qed

subsection \<open>Truncating\<close>

lemma truncate_loop_seg:
  assumes "a \<noteq> 0"
  shows "seg m p us a \<Longrightarrow> length us < fuel \<Longrightarrow> truncate_loop fuel m l p i (i + int (length us)) =
     bnd (set_next m a 0) (\<lambda>m. bnd (load_list m l) (\<lambda>h.
       Inr (l, store_list m l (h\<lparr>ltail := a, llength := i + int (length us)\<rparr>))))"
proof (induction us arbitrary: p fuel i)
  case Nil
  then show ?case using assms by (cases fuel) auto
next
  case (Cons c us)
  obtain b d where c: "c = (b, d)" by (cases c)
  obtain f where f: "fuel = Suc f" using Cons.prems(2) by (cases fuel) auto
  from Cons.prems(1) c obtain n where n: "p = b" "b \<noteq> 0" "heap m b = Some (ListCell \<lparr>cdata = d, cnext = n\<rparr>)" "seg m n us a"
    by auto
  have "truncate_loop fuel m l p i (i + int (length (c # us))) = truncate_loop f m l n (i + 1) ((i + 1) + int (length us))"
    using f n by (simp add: load_cell_def ac_simps)
  also have "\<dots> = bnd (set_next m a 0) (\<lambda>m. bnd (load_list m l) (\<lambda>h.
       Inr (l, store_list m l (h\<lparr>ltail := a, llength := (i + 1) + int (length us)\<rparr>))))"
    by (rule Cons.IH) (use n Cons.prems(2) f in auto)
  finally show ?case by (simp add: ac_simps)
qed

lemma truncate_rep:
  assumes ok: "mem_ok m" and rep: "list_rep m l tag (us @ (a, d) # vs)"
  shows "\<exists>m'. bnd (set_next m a 0) (\<lambda>m. bnd (load_list m l) (\<lambda>h.
        Inr (l, store_list m l (h\<lparr>ltail := a, llength := int (length us) + 1\<rparr>)))) = Inr (l, m') \<and>
      mem_ok m' \<and> agree {l, a} m m' \<and> brk m' = brk m \<and> list_rep m' l tag (us @ [(a, d)])"
proof -
  have l: "l \<noteq> 0" by (rule list_rep_ne [OF rep]) simp
  have hl: "heap m l = Some (ListHdr \<lparr>ltype = tag, llength = int (length (us @ (a, d) # vs)),
      lhead = fst (hd (us @ (a, d) # vs)), ltail = fst (last (us @ (a, d) # vs))\<rparr>)"
    and ch: "chain m (fst (hd (us @ (a, d) # vs))) (us @ (a, d) # vs)"
    using rep l by (simp_all add: list_rep_def)
  then obtain r where us: "seg m (fst (hd (us @ (a, d) # vs))) us r" and r: "chain m r ((a, d) # vs)"
    unfolding seg_append by blast
  note a = chain_next [OF r]
  have nl: "l \<notin> addrs (us @ (a, d) # vs)" using list_rep_hdr_not_cell [OF rep l] .
  have hd: "fst (hd (us @ (a, d) # vs)) = fst (hd (us @ [(a, d)]))" by (cases us) simp_all
  define m' where "m' = store_list (store_cell m a \<lparr>cdata = d, cnext = 0\<rparr>) l \<lparr>ltype = tag,
      llength = int (length us) + 1, lhead = fst (hd (us @ [(a, d)])), ltail = a\<rparr>"
  have "seg m' (fst (hd (us @ [(a, d)]))) (us @ [(a, d)]) 0"
  proof (rule seg_redirect [where m = m and d = d])
    show "seg m (fst (hd (us @ [(a, d)]))) (us @ [(a, d)]) (if vs = [] then 0 else fst (hd vs))"
      using us a hd by (auto simp: seg_append)
    show "a \<notin> addrs us" using chain_distinct [OF ch] by auto
    show "heap m' a = Some (ListCell \<lparr>cdata = d, cnext = 0\<rparr>)" using nl by (simp add: m'_def)
    show "heap m' b = heap m b" if "b \<in> addrs us" for b
      using that nl chain_distinct [OF ch] by (auto simp: m'_def)
  qed
  then have "list_rep m' l tag (us @ [(a, d)])" using l by (simp add: list_rep_def m'_def)
  moreover have "bnd (set_next m a 0) (\<lambda>m. bnd (load_list m l) (\<lambda>h.
      Inr (l, store_list m l (h\<lparr>ltail := a, llength := int (length us) + 1\<rparr>)))) = Inr (l, m')"
    using a l hl nl hd by (simp add: set_next_def load_cell_def load_list_def m'_def)
  moreover have "mem_ok m'"
  proof -
    have "heap (store_cell m a \<lparr>cdata = d, cnext = 0\<rparr>) l \<noteq> None" using hl nl by simp
    moreover have "mem_ok (store_cell m a \<lparr>cdata = d, cnext = 0\<rparr>)"
      using mem_ok_store(1) [OF ok] a by blast
    ultimately show ?thesis using mem_ok_store(2) unfolding m'_def by blast
  qed
  moreover have "agree {l, a} m m'" "brk m' = brk m" by (auto simp: agree_def m'_def)
  ultimately show ?thesis by blast
qed

lemma list_truncate_yields:
  assumes ok: "mem_ok m" and rep: "list_rep m l tag cs"
  shows "yields m (footprint l cs) tag (take (nat n) (map snd cs)) (list_truncate m l n)"
proof (cases "0 < n \<and> n < int (length cs)")
  case False
  then show ?thesis using rep ok list_length_rep [OF rep]
    by (auto simp: list_truncate_def intro!: yieldsI)
next
  case True
  define us where "us = take (nat n - 1) cs"
  obtain a d vs where "drop (nat n - 1) cs = (a, d) # vs"
    using True by (cases "drop (nat n - 1) cs") auto
  then have cs: "cs = us @ (a, d) # vs" unfolding us_def by (metis append_take_drop_id)
  have "nat n - 1 \<le> length cs" using True by linarith
  then have "length us = nat n - 1" by (simp add: us_def min_absorb2)
  then have n: "n = 1 + int (length us)" using True by linarith
  have l: "l \<noteq> 0" by (rule list_rep_ne [OF rep]) (simp add: cs)
  have "chain m (fst (hd cs)) (us @ (a, d) # vs)" using rep l cs by (simp add: list_rep_def)
  then obtain r where us: "seg m (fst (hd cs)) us r" and r: "chain m r ((a, d) # vs)"
    unfolding seg_append by blast
  note a = chain_next [OF r]
  obtain m' where m': "bnd (set_next m a 0) (\<lambda>m. bnd (load_list m l) (\<lambda>h.
        Inr (l, store_list m l (h\<lparr>ltail := a, llength := int (length us) + 1\<rparr>)))) = Inr (l, m')"
      "mem_ok m'" "agree {l, a} m m'" "list_rep m' l tag (us @ [(a, d)])"
    using truncate_rep [OF ok rep [unfolded cs]] by blast
  have "length us < loop_fuel m"
    using chain_length_fuel [OF ok list_rep_chain [OF rep]] cs by simp
  then have "list_truncate m l n = Inr (l, m')"
    using truncate_loop_seg [of a m "fst (hd cs)" us "loop_fuel m" l 1] us a True n m'(1) list_length_rep [OF rep]
      list_head_rep [OF rep] cs
    by (simp add: list_truncate_def ac_simps)
  moreover have "agree (footprint l cs) m m'"
    by (rule agree_mono [OF m'(3)]) (use l cs in \<open>auto simp: footprint_def\<close>)
  moreover have "footprint l (us @ [(a, d)]) \<subseteq> footprint l cs" using cs by (auto simp: footprint_def)
  moreover have "map snd (us @ [(a, d)]) = take (nat n) (map snd cs)"
    unfolding n cs by (simp add: nat_add_distrib)
  ultimately show ?thesis using m'(2,4) by (intro yieldsI [of _ l m']) auto
qed

subsection \<open>Copying a tail\<close>

lemma list_copy_tail_yields:
  assumes ok: "mem_ok m" and rep: "list_rep m l tag cs"
  shows "yields m {} tag (drop (nat n) (map snd cs)) (list_copy_tail m l n)"
proof (cases "nat n < length cs")
  case False
  then show ?thesis
    using ok list_rep_load [OF rep] rep
    by (cases "l = 0") (auto simp: list_copy_tail_def Let_def intro!: yieldsI)
next
  case True
  have l: "l \<noteq> 0" by (rule list_rep_ne [OF rep]) (use True in auto)
  have "chain m (fst (hd cs)) (take (nat n) cs @ drop (nat n) cs)" using rep l by (simp add: list_rep_def)
  then obtain r where r: "seg m (fst (hd cs)) (take (nat n) cs) r" "chain m r (drop (nat n) cs)"
    unfolding seg_append by blast
  have "nth_loop (nat n) m (fst (hd cs)) = Inr r" using nth_loop_seg [OF r(1)] True by simp
  then have "list_copy_tail m l n = copy_from m tag (int (length (drop (nat n) cs))) r"
    using l list_rep_load [OF rep l] True by (auto simp: list_copy_tail_def Let_def of_nat_diff)
  then show ?thesis using copy_from_yields [OF ok r(2), of tag] True by (simp add: drop_map)
qed

end
