(* ===== verification/Pg_List_Correct.thy ===== *)
theory Pg_List_Correct
  imports Pg_List_Update
begin

section \<open>Properties of the List package\<close>

text \<open>
  The contracts of \<open>list.c\<close> in terms of the values a list holds (\<open>owns\<close>) and of the outcome of an
  operation (\<open>yields\<close>): the new values, the addresses the operation may change, and that whatever
  else the result occupies is freshly allocated.
\<close>

text \<open>The witnesses use the list \<open>(1 2 3)\<close> of integers, and the list of the pointer \<open>7\<close>.\<close>

definition sample_ints :: "nat mem" where
  "sample_ints = \<lparr>heap = [1 \<mapsto> ListHdr \<lparr>ltype = T_IntList, llength = 3, lhead = 2, ltail = 4\<rparr>,
     2 \<mapsto> ListCell \<lparr>cdata = IntV 1, cnext = 3\<rparr>, 3 \<mapsto> ListCell \<lparr>cdata = IntV 2, cnext = 4\<rparr>,
     4 \<mapsto> ListCell \<lparr>cdata = IntV 3, cnext = 0\<rparr>,
     5 \<mapsto> ListHdr \<lparr>ltype = T_List, llength = 1, lhead = 6, ltail = 6\<rparr>,
     6 \<mapsto> ListCell \<lparr>cdata = Ptr 7, cnext = 0\<rparr>, 7 \<mapsto> Obj 0,
     8 \<mapsto> ListHdr \<lparr>ltype = T_IntList, llength = 2, lhead = 9, ltail = 10\<rparr>,
     9 \<mapsto> ListCell \<lparr>cdata = IntV 5, cnext = 10\<rparr>, 10 \<mapsto> ListCell \<lparr>cdata = IntV 2, cnext = 0\<rparr>], brk = 11\<rparr>"

lemma sample_ints_ok [simp]: "mem_ok sample_ints"
  by (simp add: mem_ok_def sample_ints_def)

lemma sample_ints_rep:
  "list_rep sample_ints 1 T_IntList [(2, IntV 1), (3, IntV 2), (4, IntV 3)]"
  "list_rep sample_ints 5 T_List [(6, Ptr 7)]"
  "list_rep sample_ints 8 T_IntList [(9, IntV 5), (10, IntV 2)]"
  by (simp_all add: list_rep_def sample_ints_def)

lemma ownsI: "list_rep m l tag cs \<Longrightarrow> owns m l tag (map snd cs) (footprint l cs)"
  unfolding owns_def by blast

lemma sample_ints_owns:
  "owns sample_ints 1 T_IntList (map IntV [1, 2, 3]) {1, 2, 3, 4}"
  "owns sample_ints 5 T_List (map Ptr [7]) {5, 6}"
  "owns sample_ints 8 T_IntList (map IntV [5, 2]) {8, 9, 10}"
  using sample_ints_rep(1) [THEN ownsI] sample_ints_rep(2) [THEN ownsI] sample_ints_rep(3) [THEN ownsI]
  by (simp_all add: footprint_def)

text \<open>
  C32. \<open>lappend\<close> adds an element at the end of a list and \<open>lcons\<close> at its front, in place: both return,
  keep the other elements in order, and touch no memory but the list itself and fresh cells. The
  same holds for integer lists.
\<close>

theorem list_insert:
  assumes "mem_ok m" and "owns m l T_List vs F" and "owns m k T_IntList ns G"
  shows "yields m F T_List (vs @ [Ptr x]) (lappend m l x) \<and> yields m F T_List (Ptr x # vs) (lcons m x l) \<and>
    yields m G T_IntList (ns @ [IntV i]) (lappend_int m k i) \<and> yields m G T_IntList (IntV i # ns) (lcons_int m i k)"
  using lappend_with_yields [OF assms(1)] lcons_with_yields [OF assms(1)] assms(2,3)
  unfolding owns_def lappend_def lcons_def lappend_int_def lcons_int_def by blast

theorem list_insert_witness:
  "yields sample_ints {5, 6} T_List [Ptr 7, Ptr 9] (lappend sample_ints 5 9) \<and>
   yields sample_ints {1, 2, 3, 4} T_IntList (map IntV [0, 1, 2, 3]) (lcons_int sample_ints 0 1)"
  using list_insert [OF sample_ints_ok sample_ints_owns(2,1), of 9 0] by simp

text \<open>
  C33. \<open>list_concat\<close> moves no element: the first list becomes the concatenation by linking its last cell
  to the first cell of the second, so that both lists share the cells of the second from then on.
  Only the header and the last cell of the first list change and nothing is allocated.
  Concatenating a list to itself raises an error.
\<close>

theorem list_concat_shares:
  assumes "mem_ok m" and "list_rep m l1 tag cs1" and "list_rep m l2 tag2 cs2"
    and "l1 \<noteq> 0" and "l2 \<noteq> 0" and "addrs cs1 \<inter> addrs cs2 = {}"
  shows "list_concat m l1 l1 = Inl (Elog ''cannot list_concat() a list to itself'') \<and>
    (\<exists>m'. list_concat m l1 l2 = Inr (l1, m') \<and> mem_ok m' \<and> brk m' = brk m \<and>
       list_rep m' l1 tag (cs1 @ cs2) \<and> list_rep m' l2 tag2 cs2 \<and>
       (\<forall>a. a < brk m \<longrightarrow> a \<noteq> l1 \<longrightarrow> a \<noteq> fst (last cs1) \<longrightarrow> heap m' a = heap m a))"
proof -
  have "cs1 \<noteq> []" "cs2 \<noteq> []" using assms(2-5) by (simp_all add: list_rep_def)
  then have hd: "fst (hd cs1) \<in> addrs cs1" "fst (hd cs2) \<in> addrs cs2" by simp_all
  have "l1 \<noteq> l2"
  proof
    assume "l1 = l2"
    then have "fst (hd cs1) = fst (hd cs2)" using assms(2-5) by (simp add: list_rep_def)
    with hd have "fst (hd cs1) \<in> addrs cs1 \<inter> addrs cs2" by (simp only: Int_iff)
    with assms(6) show False by simp
  qed
  from list_concat_rep [OF assms(1-5) this assms(6)] obtain m' where
    m': "list_concat m l1 l2 = Inr (l1, m')" "mem_ok m'" "agree {l1, fst (last cs1)} m m'" "brk m' = brk m"
      "list_rep m' l1 tag (cs1 @ cs2)" "list_rep m' l2 tag2 cs2"
    by (elim exE conjE)
  have "list_concat m l1 l1 = Inl (Elog ''cannot list_concat() a list to itself'')"
    using assms(4) by (simp add: list_concat_def)
  moreover have "\<forall>a. a < brk m \<longrightarrow> a \<noteq> l1 \<longrightarrow> a \<noteq> fst (last cs1) \<longrightarrow> heap m' a = heap m a"
    using m'(3) by (simp add: agree_def)
  ultimately show ?thesis using m' by (intro conjI exI [of _ m'])
qed

theorem list_concat_shares_witness:
  "\<exists>m'. list_concat sample_ints 1 8 = Inr (1, m') \<and>
     list_rep m' 1 T_IntList [(2, IntV 1), (3, IntV 2), (4, IntV 3), (9, IntV 5), (10, IntV 2)] \<and>
     list_rep m' 8 T_IntList [(9, IntV 5), (10, IntV 2)]"
  using list_concat_shares [OF sample_ints_ok sample_ints_rep(1,3)] by auto



text \<open>
  C36. \<open>list_copy\<close> returns a list with the same values in cells of its own: the original keeps its values
  and the two occupy disjoint memory, so a later update of one in place does not reach the other.
\<close>

theorem list_copy_independent:
  assumes "mem_ok m" and "owns m l tag vs F"
  shows "\<exists>l' m' F'. list_copy m l = Inr (l', m') \<and> mem_ok m' \<and> owns m' l' tag vs F' \<and> owns m' l tag vs F \<and> F \<inter> F' = {}"
proof -
  obtain cs where cs: "list_rep m l tag cs" "map snd cs = vs" "F = footprint l cs"
    using assms(2) unfolding owns_def by blast
  from list_copy_yields [OF assms(1) cs(1)] obtain l' m' F' where r: "list_copy m l = Inr (l', m')" "mem_ok m'"
    "agree {} m m'" "owns m' l' tag vs F'" "F' \<subseteq> {} \<union> {a. brk m \<le> a}"
    unfolding yields_def cs(2) by blast
  moreover have "owns m' l tag vs F" using owns_frame [OF assms(2,1) r(3)] by simp
  moreover have "F \<inter> F' = {}" using owns_below [OF assms(2,1)] r(5) by fastforce
  ultimately show ?thesis by blast
qed

theorem list_copy_independent_witness:
  "\<exists>l' m' F'. list_copy sample_ints 1 = Inr (l', m') \<and> owns m' l' T_IntList (map IntV [1, 2, 3]) F' \<and> {1, 2, 3, 4} \<inter> F' = {}"
  using list_copy_independent [OF sample_ints_ok sample_ints_owns(1)] by blast

text \<open>
  C37. The set operations on integer lists compute union, intersection and difference: they return new
  lists, leave the operands alone and introduce no duplicates that the first operand does not have.
\<close>

theorem list_sets_int:
  assumes "mem_ok m" and "owns m l1 T_IntList (map IntV us) F" and "owns m l2 T_IntList (map IntV vs) G"
  shows "(\<exists>ws. yields m {} T_IntList (map IntV ws) (list_union_int m l1 l2) \<and> set ws = set us \<union> set vs \<and>
             (distinct us \<longrightarrow> distinct ws)) \<and>
         yields m {} T_IntList (map IntV (filter (\<lambda>x. x \<in> set vs) us)) (list_intersection_int m l1 l2) \<and>
         yields m {} T_IntList (map IntV (filter (\<lambda>x. x \<notin> set vs) us)) (list_difference_int m l1 l2)"
proof -
  obtain cs ds where cs: "list_rep m l1 T_IntList cs" "map snd cs = map IntV us"
    and ds: "list_rep m l2 T_IntList ds" "map snd ds = map IntV vs"
    using assms(2,3) unfolding owns_def by blast
  have nil: "l1 = 0 \<Longrightarrow> us = []" "l2 = 0 \<Longrightarrow> vs = []" using cs ds by auto
  have "yields m {} T_IntList (map IntV us) (list_copy m l1)" using list_copy_yields [OF assms(1) cs(1)] cs(2) by simp
  then have "yields m {} T_IntList (map IntV (filter (\<lambda>x. x \<notin> set vs) us)) (list_difference_int m l1 l2)"
    using ints.filter_yields(2) [OF assms(1) cs ds, of T_IntList] nil(2) by (simp add: list_difference_int_def)
  moreover have "yields m {} T_IntList (map IntV (filter (\<lambda>x. x \<in> set vs) us)) (list_intersection_int m l1 l2)"
  proof (cases "l1 = 0 \<or> l2 = 0")
    case True
    then have "filter (\<lambda>x. x \<in> set vs) us = []" using nil by auto
    moreover have "yields m {} T_IntList [] (Inr (0, m))" using assms(1) by (auto intro!: yieldsI)
    ultimately show ?thesis using True by (simp add: list_intersection_int_def)
  next
    case False
    then show ?thesis
      using ints.filter_yields(1) [OF assms(1) cs ds, of T_IntList] by (simp add: list_intersection_int_def)
  qed
  moreover have "yields m {} T_IntList (map IntV (add_new (=) us vs)) (list_union_int m l1 l2)"
    using ints.union_yields [OF assms(1) cs ds] unfolding list_union_int_def .
  ultimately show ?thesis
    using set_add_new_eq [of us vs] distinct_add_new_eq [of us vs] by (intro conjI exI [of _ "add_new (=) us vs"]) simp_all
qed

theorem list_sets_int_witness:
  "yields sample_ints {} T_IntList (map IntV [2]) (list_intersection_int sample_ints 1 8) \<and>
   yields sample_ints {} T_IntList (map IntV [1, 3]) (list_difference_int sample_ints 1 8)"
  using list_sets_int [OF sample_ints_ok sample_ints_owns(1,3)] by simp

lemma remove_first_map:
  "inj f \<Longrightarrow> remove_first (\<lambda>d. d = f x) (map f xs) = map f (remove1 x xs)"
  by (induction xs) (auto dest: injD)

text \<open>
  C38. \<open>list_delete_int\<close> and \<open>list_delete_ptr\<close> remove the first occurrence of a value and nothing else, and
  return the list unchanged when the value does not occur; deleting the only element gives \<open>NIL\<close>.
\<close>

theorem list_delete_removes_first:
  assumes "mem_ok m" and "owns m l T_IntList (map IntV ns) F" and "owns m k T_List (map Ptr ps) G"
  shows "yields m F T_IntList (map IntV (remove1 i ns)) (list_delete_int m l i) \<and>
         yields m G T_List (map Ptr (remove1 p ps)) (list_delete_ptr m k p)"
proof
  obtain cs where cs: "list_rep m l T_IntList cs" "map snd cs = map IntV ns" "F = footprint l cs"
    using assms(2) unfolding owns_def by blast
  have im: "snd ` set cs = IntV ` set ns" using arg_cong [OF cs(2), of set] by simp
  have "yields m F T_IntList (remove_first (\<lambda>d. d = IntV i) (map snd cs)) (list_delete_int m l i)"
    unfolding list_delete_int_def cs(3) by (rule list_delete_with_yields [OF assms(1) cs(1)]) (auto simp: im)
  then show "yields m F T_IntList (map IntV (remove1 i ns)) (list_delete_int m l i)"
    by (simp add: cs(2) remove_first_map [OF ints.inj_emb])
next
  obtain cs where cs: "list_rep m k T_List cs" "map snd cs = map Ptr ps" "G = footprint k cs"
    using assms(3) unfolding owns_def by blast
  have im: "snd ` set cs = Ptr ` set ps" using arg_cong [OF cs(2), of set] by simp
  have "yields m G T_List (remove_first (\<lambda>d. d = Ptr p) (map snd cs)) (list_delete_ptr m k p)"
    unfolding list_delete_ptr_def cs(3) by (rule list_delete_with_yields [OF assms(1) cs(1)]) (auto simp: im)
  then show "yields m G T_List (map Ptr (remove1 p ps)) (list_delete_ptr m k p)"
    by (simp add: cs(2) remove_first_map [OF ptrs.inj_emb])
qed

theorem list_delete_removes_first_witness:
  "yields sample_ints {1, 2, 3, 4} T_IntList (map IntV [1, 3]) (list_delete_int sample_ints 1 2) \<and>
   yields sample_ints {5, 6} T_List [] (list_delete_ptr sample_ints 5 7)"
  using list_delete_removes_first [OF sample_ints_ok sample_ints_owns(1,2), of 2 7] by simp

text \<open>
  C34. Cutting a list in two and joining the parts gives the list back: for every number \<open>n\<close>,
  \<open>list_copy_tail\<close> with \<open>n\<close>, \<open>list_truncate\<close> to \<open>n\<close> and \<open>list_concat\<close> of the two results all return, and
  the final list has the values of the original one.
\<close>

theorem list_cut_join:
  assumes "mem_ok m" and "owns m l tag vs F"
  shows "\<exists>k m1 l' m2 r m3 F'. list_copy_tail m l n = Inr (k, m1) \<and> list_truncate m1 l n = Inr (l', m2) \<and>
     list_concat m2 l' k = Inr (r, m3) \<and> owns m3 r tag vs F'"
proof -
  obtain cs where cs: "list_rep m l tag cs" "map snd cs = vs" using assms(2) unfolding owns_def by blast
  from list_copy_tail_yields [OF assms(1) cs(1), of n] obtain k m1 ds where
    k: "list_copy_tail m l n = Inr (k, m1)" "mem_ok m1" "agree {} m m1" "list_rep m1 k tag ds"
      "map snd ds = drop (nat n) (map snd cs)" "footprint k ds \<subseteq> {} \<union> {a. brk m \<le> a}"
    by (rule yieldsE)
  have cs1: "list_rep m1 l tag cs" by (rule list_rep_frame [OF cs(1) assms(1) k(3)]) simp
  have low: "footprint l cs \<subseteq> {a. a < brk m}" using owns_below [OF ownsI [OF cs(1)] assms(1)] .
  have mid: "footprint k ds \<subseteq> {a. a < brk m1}" using owns_below [OF ownsI [OF k(4)] k(2)] .
  have dis: "footprint k ds \<inter> footprint l cs = {}" using low k(6) by fastforce
  from list_truncate_yields [OF k(2) cs1, of n] obtain l' m2 es where
    t: "list_truncate m1 l n = Inr (l', m2)" "mem_ok m2" "agree (footprint l cs) m1 m2" "list_rep m2 l' tag es"
      "map snd es = take (nat n) (map snd cs)" "footprint l' es \<subseteq> footprint l cs \<union> {a. brk m1 \<le> a}"
    by (rule yieldsE)
  have ds2: "list_rep m2 k tag ds" by (rule list_rep_frame [OF k(4,2) t(3) dis])
  have "footprint l' es \<inter> footprint k ds = {}" using t(6) mid dis by fastforce
  from list_concat_yields [OF t(2,4) ds2 this] obtain r m3 F' where
    "list_concat m2 l' k = Inr (r, m3)" "owns m3 r tag (map snd es @ map snd ds) F'"
    unfolding yields_def by blast
  with k(1,5) t(1,5) cs(2) show ?thesis by auto
qed

theorem list_cut_join_witness:
  "\<exists>k m1 l' m2 r m3 F'. list_copy_tail sample_ints 1 2 = Inr (k, m1) \<and> list_truncate m1 1 2 = Inr (l', m2) \<and>
     list_concat m2 l' k = Inr (r, m3) \<and> owns m3 r T_IntList (map IntV [1, 2, 3]) F'"
  by (rule list_cut_join [OF sample_ints_ok sample_ints_owns(1)])

text \<open>
  C39. \<open>list_free\<close> releases exactly the memory the list occupies. \<open>list_free_deep\<close> also releases the
  elements, when they are distinct chunks outside the list; when one of them is the null pointer it
  fails.
\<close>

theorem list_free_exact:
  assumes "mem_ok m" and "owns m l T_List (map Ptr ps) F"
  shows "(\<exists>m'. list_free m l = Inr m' \<and> (\<forall>a. heap m' a = (if a \<in> F then None else heap m a))) \<and>
    (distinct ps \<longrightarrow> (\<forall>q \<in> set ps. heap m q \<noteq> None) \<longrightarrow> F \<inter> set ps = {} \<longrightarrow>
       (\<exists>m'. list_free_deep m l = Inr m' \<and> (\<forall>a. heap m' a = (if a \<in> F \<union> set ps then None else heap m a)))) \<and>
    (0 \<in> set ps \<longrightarrow> (\<exists>e. list_free_deep m l = Inl e))"
proof -
  obtain cs where cs: "list_rep m l T_List cs" "map snd cs = map Ptr ps" "F = footprint l cs"
    using assms(2) unfolding owns_def by blast
  let ?p = "if cs = [] then 0 else fst (hd cs)"
  note ch = list_rep_chain [OF cs(1)] and hd = list_head_rep [OF cs(1)]
  note fuel = chain_length_fuel [OF assms(1) ch]
  have 1: "list_free m l = Inr (freed F m)" using list_free_rep [OF assms(1) cs(1)] cs(3) by simp
  have 2: "list_free_deep m l = Inr (freed (F \<union> set ps) m)"
    if "distinct ps" "\<forall>q \<in> set ps. heap m q \<noteq> None" "F \<inter> set ps = {}"
  proof (cases "l = 0")
    case True
    then show ?thesis using cs(1,2,3)
      by (simp add: list_free_deep_def list_free_private_def list_head_def loop_fuel_def)
  next
    case False
    have "addrs cs \<inter> set ps = {}" using that(3) cs(3) False by (auto simp: footprint_def)
    from free_loop_deep [OF assms(1) ch fuel cs(2) that(1,2) this]
    have *: "free_loop (loop_fuel m) m True ?p = Inr (freed (addrs cs \<union> set ps) m)" .
    have "heap (freed (addrs cs \<union> set ps) m) l \<noteq> None"
      using cs(1,3) False that(3) list_rep_hdr_not_cell [OF cs(1) False] by (auto simp: list_rep_def footprint_def)
    from pfree_freed [OF mem_ok_freed [OF assms(1)] this] show ?thesis
      using * hd False cs(3) by (simp add: list_free_deep_def list_free_private_def footprint_def)
  qed
  have 3: "\<exists>e. list_free_deep m l = Inl e" if "0 \<in> set ps"
  proof -
    have "snd ` set cs = Ptr ` set ps" using arg_cong [OF cs(2), of set] by simp
    with that have "Ptr 0 \<in> snd ` set cs" by simp
    from free_loop_null [OF ch this, of m "loop_fuel m"] show ?thesis
      using hd by (auto simp: list_free_deep_def list_free_private_def)
  qed
  show ?thesis using 1 2 3 by auto
qed

theorem list_free_exact_witness:
  "(\<exists>m'. list_free_deep sample_ints 5 = Inr m' \<and> heap m' 7 = None \<and> heap m' 4 = heap sample_ints 4)"
  using list_free_exact [OF sample_ints_ok sample_ints_owns(2)] by (auto simp: sample_ints_def)

text \<open>
  C40. A list works as the queue \<open>trueSplit\<close> uses it for: with elements \<open>p, ps\<close> waiting, \<open>list_nth\<close> at 0
  gives \<open>p\<close>, \<open>list_delete_first\<close> leaves \<open>ps\<close>, and \<open>lappend\<close> after it leaves \<open>ps\<close> followed by the new
  element; \<open>list_length\<close> is zero only for the empty queue.
\<close>

theorem list_queue:
  assumes "mem_ok m" and "owns m l T_List (map Ptr (p # ps)) F"
  shows "list_length m l = Inr (1 + int (length ps)) \<and> list_nth m l 0 = Inr p \<and>
    (\<exists>l' m' F'. list_delete_first m l = Inr (l', m') \<and> mem_ok m' \<and> owns m' l' T_List (map Ptr ps) F' \<and>
       yields m' F' T_List (map Ptr (ps @ [q])) (lappend m' l' q))"
proof -
  obtain cs where cs: "list_rep m l T_List cs" "map snd cs = map Ptr (p # ps)" "F = footprint l cs"
    using assms(2) unfolding owns_def by blast
  then obtain a ds where c: "cs = (a, Ptr p) # ds" "map snd ds = map Ptr ps" by (cases cs) auto
  have len: "length ds = length ps" using c(2) map_eq_imp_length_eq by blast
  from list_delete_first_yields [OF assms(1) cs(1)] obtain l' m' es where
    d: "list_delete_first m l = Inr (l', m')" "mem_ok m'" "list_rep m' l' T_List es" "map snd es = tl (map snd cs)"
    by (rule yieldsE)
  have es: "map snd es = map Ptr ps" using d(4) cs(2) by simp
  from lappend_with_yields [OF d(2,3), of "Ptr q"]
  have "yields m' (footprint l' es) T_List (map Ptr (ps @ [q])) (lappend m' l' q)"
    by (simp add: lappend_def es)
  moreover have "owns m' l' T_List (map Ptr ps) (footprint l' es)" using ownsI [OF d(3)] es by simp
  moreover have "list_length m l = Inr (1 + int (length ps))" using list_length_rep [OF cs(1)] c(1) len by simp
  moreover have "list_nth m l 0 = Inr p" using list_nth_rep(1) [OF cs(1), of 0] c(1) by simp
  ultimately show ?thesis using d(1,2) by blast
qed

theorem list_queue_witness:
  "list_nth sample_ints 5 0 = Inr 7 \<and> (\<exists>m'. list_delete_first sample_ints 5 = Inr (0, m'))"
  using list_queue [of sample_ints 5 7 "[]" "{5, 6}" 1] sample_ints_owns(2) by (auto simp: owns_Nil_iff)

end
