(* ===== verification/True_Var_Correct.thy ===== *)
theory True_Var_Correct
  imports Heap_Order Pg_List_Correct
begin

section \<open>Lists of variables\<close>

text \<open>
  \<open>var_list m l vs F\<close>: the list \<open>l\<close> holds pointers to the variables \<open>vs\<close> and occupies \<open>F\<close>. The
  operations of \<open>true_var.c\<close> on such lists are functions of the columns the variables denote.
\<close>

definition var_at :: "vmem \<Rightarrow> lval \<Rightarrow> pg_var \<Rightarrow> bool" where
  "var_at m d v \<longleftrightarrow> (\<exists>p. d = Ptr p \<and> p \<noteq> 0 \<and> heap m p = Some (Obj v))"

definition var_list :: "vmem \<Rightarrow> nat \<Rightarrow> pg_var list \<Rightarrow> nat set \<Rightarrow> bool" where
  "var_list m l vs F \<longleftrightarrow>
     (\<exists>cs. list_rep m l T_List cs \<and> F = footprint l cs \<and> list_all2 (var_at m) (map snd cs) vs)"

lemma var_listI: "list_rep m l T_List cs \<Longrightarrow> list_all2 (var_at m) (map snd cs) vs \<Longrightarrow> var_list m l vs (footprint l cs)"
  unfolding var_list_def by blast

lemma var_listE:
  assumes "var_list m l vs F"
  obtains cs where "list_rep m l T_List cs" and "F = footprint l cs" and "list_all2 (var_at m) (map snd cs) vs"
  using assms unfolding var_list_def by blast

lemma var_list_NIL [simp]: "var_list m 0 vs F \<longleftrightarrow> vs = [] \<and> F = {}"
  by (auto simp: var_list_def)

lemma var_atD: "var_at m (Ptr p) v \<Longrightarrow> load_obj m p = Inr v"
  by (auto simp: var_at_def load_obj_iff)

text \<open>Objects are not list chunks, so updating lists leaves them alone.\<close>

definition obj_free :: "'o mem \<Rightarrow> nat set \<Rightarrow> bool" where
  "obj_free m F \<longleftrightarrow> (\<forall>a \<in> F. \<forall>x. heap m a \<noteq> Some (Obj x))"

lemma obj_free_list: "list_rep m l tag cs \<Longrightarrow> obj_free m (footprint l cs)"
  using seg_allocated [of m "fst (hd cs)" cs 0]
  by (fastforce simp: obj_free_def footprint_def list_rep_def split: if_splits)

lemma obj_free_var_list: "var_list m l vs F \<Longrightarrow> obj_free m F"
  by (auto elim!: var_listE intro: obj_free_list)

lemma obj_free_simps [simp]: "obj_free m {}" "obj_free m (A \<union> B) \<longleftrightarrow> obj_free m A \<and> obj_free m B"
  by (auto simp: obj_free_def)

lemma obj_frame: "mem_ok m \<Longrightarrow> agree A m m' \<Longrightarrow> obj_free m A \<Longrightarrow> heap m p = Some (Obj x) \<Longrightarrow> heap m' p = Some (Obj x)"
  using agree_heap [of A m m' p] by (auto simp: obj_free_def)

lemma var_at_frame: "mem_ok m \<Longrightarrow> agree A m m' \<Longrightarrow> obj_free m A \<Longrightarrow> var_at m d v \<Longrightarrow> var_at m' d v"
  using obj_frame [of m A m'] unfolding var_at_def by blast

lemma var_list_frame:
  assumes "var_list m l vs F" and "mem_ok m" and "agree A m m'" and "obj_free m A" and "F \<inter> A = {}"
  shows "var_list m' l vs F"
proof -
  obtain cs where cs: "list_rep m l T_List cs" "F = footprint l cs" "list_all2 (var_at m) (map snd cs) vs"
    using assms(1) by (rule var_listE)
  have "list_rep m' l T_List cs" using list_rep_frame [OF cs(1) assms(2,3)] cs(2) assms(5) by simp
  moreover have "list_all2 (var_at m') (map snd cs) vs"
    using cs(3) by (rule list_all2_mono) (rule var_at_frame [OF assms(2-4)])
  ultimately show ?thesis unfolding cs(2) by (rule var_listI)
qed

lemma var_list_below: "var_list m l vs F \<Longrightarrow> mem_ok m \<Longrightarrow> F \<subseteq> {a. a < brk m}"
  by (auto elim!: var_listE dest!: ownsI dest: owns_below)

lemma lappend_var:
  assumes "mem_ok m" and "var_list m l vs F" and "heap m p = Some (Obj v)"
  shows "\<exists>l' m' F'. lappend m l p = Inr (l', m') \<and> mem_ok m' \<and> agree F m m' \<and> var_list m' l' (vs @ [v]) F' \<and>
           F' \<subseteq> F \<union> {a. brk m \<le> a}"
proof -
  obtain cs where cs: "list_rep m l T_List cs" "F = footprint l cs" "list_all2 (var_at m) (map snd cs) vs"
    using assms(2) by (rule var_listE)
  from lappend_with_yields [OF assms(1) cs(1), of "Ptr p"] obtain l' m' cs' where
    r: "lappend_with T_List m l (Ptr p) = Inr (l', m')" "mem_ok m'" "agree (footprint l cs) m m'"
      "list_rep m' l' T_List cs'" "map snd cs' = map snd cs @ [Ptr p]" "footprint l' cs' \<subseteq> footprint l cs \<union> {a. brk m \<le> a}"
    by (rule yieldsE)
  have "var_at m (Ptr p) v" using assms(1,3) by (cases "p = 0") (auto simp: var_at_def mem_ok_def)
  then have "list_all2 (var_at m) (map snd cs') (vs @ [v])" using cs(3) r(5) by (simp add: list_all2_appendI)
  then have "list_all2 (var_at m') (map snd cs') (vs @ [v])"
    by (rule list_all2_mono) (rule var_at_frame [OF assms(1) r(3) obj_free_list [OF cs(1)]])
  from var_listI [OF r(4) this] r cs(2) show ?thesis unfolding lappend_def by blast
qed

lemma var_at_unique: "var_at m d u \<Longrightarrow> var_at m d v \<Longrightarrow> u = v"
  by (auto simp: var_at_def)

lemma var_at_ex:
  assumes "list_all2 (var_at m) ds vs"
  shows "(\<exists>d \<in> set ds. \<exists>u. var_at m d u \<and> Q u) \<longleftrightarrow> (\<exists>u \<in> set vs. Q u)"
  using assms by (induction rule: list_all2_induct) (auto dest: var_at_unique)

lemma var_at_elem:
  assumes "list_all2 (var_at m) ds vs"
  shows "d \<in> set ds \<Longrightarrow> \<exists>u \<in> set vs. var_at m d u"
  using assms by (induction rule: list_all2_induct) auto

lemma isInListTrueVar_var:
  assumes "mem_ok m" and "var_list m l vs F" and "heap m p = Some (Obj v)" and "p \<noteq> 0"
  shows "isInListTrueVar m l p = Inr (attr v \<in> attr ` set vs)"
proof (cases "l = 0")
  case True
  then show ?thesis using assms(2) by (simp add: isInListTrueVar_def)
next
  case False
  obtain cs where cs: "list_rep m l T_List cs" "list_all2 (var_at m) (map snd cs) vs"
    using assms(2) by (rule var_listE)
  define T where "T d = (\<exists>u. var_at m d u \<and> attr v = attr u)" for d
  have v: "load_obj m p = Inr v" using assms(3,4) by (simp add: load_obj_iff)
  have ex: "\<exists>u \<in> set vs. var_at m d u" if "d \<in> snd ` set cs" for d
    using var_at_elem [OF cs(2), of d] that by simp
  have "list_member_with m (\<lambda>d. bnd (as_ptr d) (\<lambda>t. same_attr m t p)) l = Inr (\<exists>d \<in> snd ` set cs. T d)"
  proof (rule list_member_with_rep [OF assms(1) cs(1)])
    fix d assume d: "d \<in> snd ` set cs"
    from ex [OF d] obtain u where u: "var_at m d u" by blast
    then obtain q where "d = Ptr q" by (auto simp: var_at_def)
    with u show "bnd (as_ptr d) (\<lambda>t. same_attr m t p) = Inr (T d)"
      using v var_atD [of m q u] by (auto simp: same_attr_def T_def attr_def var_at_def)
  qed
  moreover have "(\<exists>d \<in> snd ` set cs. T d) \<longleftrightarrow> attr v \<in> attr ` set vs"
    using var_at_ex [OF cs(2), of "\<lambda>u. attr v = attr u"] unfolding T_def image_iff [of "attr v"] by simp
  ultimately show ?thesis using False by (simp add: isInListTrueVar_def)
qed

subsection \<open>Union and intersection\<close>

lemma list_all2_self_map: "(\<And>x. x \<in> set xs \<Longrightarrow> P x (f x)) \<Longrightarrow> list_all2 P xs (map f xs)"
  by (induction xs) auto

lemma collected_rel:
  assumes "list_all2 P ds vs" and "list_all2 P acc us"
    and "\<And>xs ys d v. list_all2 P xs ys \<Longrightarrow> d \<in> set ds \<Longrightarrow> P d v \<Longrightarrow> K xs d = L ys v"
  shows "list_all2 P (collected K acc ds) (collected L us vs)"
  using assms
proof (induction ds vs arbitrary: acc us rule: list_all2_induct)
  case Nil
  then show ?case by simp
next
  case (Cons d ds v vs)
  have "K acc d = L us v" by (rule Cons.prems(2)) (use Cons in auto)
  moreover have "list_all2 P (if K acc d then acc @ [d] else acc) (if K acc d then us @ [v] else us)"
    using Cons.prems(1) Cons.hyps(1) by (auto intro: list_all2_appendI)
  ultimately show ?case using Cons.IH [OF _ Cons.prems(2)] by simp
qed

text \<open>
  A loop that collects variables, when its decision \<open>keep\<close> computes the function \<open>K\<close> of the
  variables collected so far and the current one.
\<close>

lemma collect_var:
  assumes ok: "mem_ok m" and src: "var_list m l vs F"
    and keep: "\<And>m' res us G p v. mem_ok m' \<Longrightarrow> agree {} m m' \<Longrightarrow> var_list m' res us G \<Longrightarrow> var_list m' l vs F \<Longrightarrow>
                 heap m' p = Some (Obj v) \<Longrightarrow> p \<noteq> 0 \<Longrightarrow> keep m' res (Ptr p) = Inr (K us v)"
  shows "\<exists>l' m' F'. collect keep T_List m 0 l = Inr (l', m') \<and> mem_ok m' \<and> agree {} m m' \<and>
           var_list m' l' (collected K [] vs) F' \<and> F' \<subseteq> {a. brk m \<le> a}"
proof -
  obtain cs where cs: "list_rep m l T_List cs" "F = footprint l cs" "list_all2 (var_at m) (map snd cs) vs"
    using src by (rule var_listE)
  define V where "V d = (THE v. var_at m d v)" for d
  have V: "V d = v" if "var_at m d v" for d v
    unfolding V_def using that by (auto simp: var_at_def)
  have at: "var_at m d (V d)" if "d \<in> snd ` set cs" for d
  proof -
    from var_at_elem [OF cs(3), of d] that obtain v where "var_at m d v" by auto
    with V [OF this] show ?thesis by simp
  qed
  define none where "none = ([] :: cells)"
  have "yields m (footprint 0 none) T_List (collected (\<lambda>xs d. K (map V xs) (V d)) (map snd none) (map snd cs)) (collect keep T_List m 0 l)"
  proof (rule collect_yields [OF ok _ cs(1)])
    fix m' res' rs' d
    assume a: "mem_ok m'" "agree (footprint 0 none) m m'" "list_rep m' res' T_List rs'" "d \<in> snd ` set cs"
      "set (map snd rs') \<subseteq> snd ` set none \<union> snd ` set cs"
    have ag: "agree {} m m'" using a(2) by simp
    have f: "var_at m' e (V e)" if "e \<in> snd ` set cs" for e
      by (rule var_at_frame [OF ok ag _ at [OF that]]) simp
    have "list_all2 (var_at m') (map snd rs') (map V (map snd rs'))"
      by (rule list_all2_self_map) (use a(5) f in \<open>auto simp: none_def\<close>)
    note v = var_listI [OF a(3) this]
    from f [OF a(4)] obtain p where p: "d = Ptr p" "p \<noteq> 0" "heap m' p = Some (Obj (V d))"
      by (auto simp: var_at_def)
    have "var_list m' l vs F" by (rule var_list_frame [OF src ok ag]) simp_all
    from keep [OF a(1) ag v this p(3,2)] show "keep m' res' d = Inr (K (map V (map snd rs')) (V d))"
      using p(1) by simp
  qed (simp_all add: none_def)
  then obtain l' m' cs' where r: "collect keep T_List m 0 l = Inr (l', m')" "mem_ok m'" "agree (footprint 0 none) m m'"
      "list_rep m' l' T_List cs'" "map snd cs' = collected (\<lambda>xs d. K (map V xs) (V d)) (map snd none) (map snd cs)"
      "footprint l' cs' \<subseteq> footprint 0 none \<union> {a. brk m \<le> a}"
    by (rule yieldsE)
  have "list_all2 (var_at m) (map snd cs') (collected K [] vs)"
    unfolding r(5)
  proof (rule collected_rel [OF cs(3)])
    fix xs ys d v
    assume "list_all2 (var_at m) xs ys" "var_at m d v"
    moreover from this(1) have "map V xs = ys"
      by (induction rule: list_all2_induct) (simp_all add: V)
    ultimately show "K (map V xs) (V d) = K ys v" using V by simp
  qed (simp add: none_def)
  then have "list_all2 (var_at m') (map snd cs') (collected K [] vs)"
    by (rule list_all2_mono) (rule var_at_frame [OF ok r(3)], simp)
  from var_listI [OF r(4) this] r show ?thesis by auto
qed

lemma union_list_var:
  assumes "mem_ok m" and "var_list m l vs F"
  shows "\<exists>l' m' F'. union_list m l = Inr (l', m') \<and> mem_ok m' \<and> agree {} m m' \<and>
           var_list m' l' (collected (\<lambda>us v. attr v \<notin> attr ` set us) [] vs) F' \<and> F' \<subseteq> {a. brk m \<le> a}"
proof (cases "l = 0")
  case True
  then show ?thesis using assms by (simp add: union_list_def)
next
  case False
  have "\<exists>l' m' F'. collect (not_in mem_attr) T_List m 0 l = Inr (l', m') \<and> mem_ok m' \<and> agree {} m m' \<and>
           var_list m' l' (collected (\<lambda>us v. attr v \<notin> attr ` set us) [] vs) F' \<and> F' \<subseteq> {a. brk m \<le> a}"
    by (rule collect_var [OF assms]) (simp add: not_in_def mem_attr_def isInListTrueVar_var)
  then show ?thesis using False by (simp add: union_list_def)
qed

lemma count_loop_chain:
  assumes "heap m q = Some (Obj v)" and "q \<noteq> 0"
  shows "chain m p cs \<Longrightarrow> length cs < fuel \<Longrightarrow> list_all2 (var_at m) (map snd cs) vs \<Longrightarrow>
    count_loop fuel m q p k = Inr (k + int (length (filter (\<lambda>u. attr u = attr v) vs)))"
proof (induction cs arbitrary: p fuel k vs)
  case Nil
  then show ?case by (cases fuel) auto
next
  case (Cons c cs)
  from Cons.prems(3) obtain u us where vs: "vs = u # us" "var_at m (snd c) u" "list_all2 (var_at m) (map snd cs) us"
    by (auto simp: list_all2_Cons1)
  then obtain a t where c: "c = (a, Ptr t)" "load_obj m t = Inr u" by (cases c) (auto simp: var_at_def load_obj_iff)
  from Cons.prems c obtain n f where n: "p = a" "a \<noteq> 0" "heap m a = Some (ListCell \<lparr>cdata = Ptr t, cnext = n\<rparr>)"
    "chain m n cs" "fuel = Suc f" "length cs < f"
    by (cases fuel) auto
  have "same_attr m q t = Inr (attr u = attr v)"
    using assms c(2) by (auto simp: same_attr_def attr_def load_obj_def)
  then show ?case using Cons.IH [OF n(4,6) vs(3)] n c(1) vs(1) by (simp add: load_cell_def)
qed

lemma inter_list_var:
  assumes "mem_ok m" and "var_list m l vs F"
  shows "\<exists>l' m' F'. inter_list m l nb = Inr (l', m') \<and> mem_ok m' \<and> agree {} m m' \<and>
           var_list m' l' (collected (\<lambda>us v. int (length (filter (\<lambda>u. attr u = attr v) vs)) = nb \<and> attr v \<notin> attr ` set us) [] vs) F' \<and>
           F' \<subseteq> {a. brk m \<le> a}"
proof (cases "l = 0")
  case True
  then show ?thesis using assms by (simp add: inter_list_def)
next
  case False
  let ?K = "\<lambda>us v. int (length (filter (\<lambda>u. attr u = attr v) vs)) = nb \<and> attr v \<notin> attr ` set us"
  have "\<exists>l' m' F'. collect (inter_keep l nb) T_List m 0 l = Inr (l', m') \<and> mem_ok m' \<and> agree {} m m' \<and>
           var_list m' l' (collected ?K [] vs) F' \<and> F' \<subseteq> {a. brk m \<le> a}"
  proof (rule collect_var [OF assms])
    fix m' res us G p v
    assume a: "mem_ok m'" "var_list m' res us G" "var_list m' l vs F" "heap m' p = Some (Obj v)" "p \<noteq> 0"
    obtain cs where cs: "list_rep m' l T_List cs" "list_all2 (var_at m') (map snd cs) vs"
      using a(3) by (rule var_listE)
    note ch = list_rep_chain [OF cs(1)]
    from count_loop_chain [OF a(4,5) ch chain_length_fuel [OF a(1) ch] cs(2), of 0]
      isInListTrueVar_var [OF a(1,2,4,5)] list_head_rep [OF cs(1)]
    show "inter_keep l nb m' res (Ptr p) = Inr (?K us v)" by (simp add: inter_keep_def)
  qed
  then show ?thesis using False by (simp add: inter_list_def)
qed

subsection \<open>What they compute\<close>

lemma collected_columns:
  "attr ` set (collected (\<lambda>us v. Q (attr v) \<and> attr v \<notin> attr ` set us) acc vs) =
     attr ` set acc \<union> {x \<in> attr ` set vs. Q x}"
  by (induction vs arbitrary: acc) auto

lemma collected_distinct:
  "distinct (map attr acc) \<Longrightarrow>
   distinct (map attr (collected (\<lambda>us v. Q (attr v) \<and> attr v \<notin> attr ` set us) acc vs))"
  by (induction vs arbitrary: acc) auto

lemma count_distinct:
  "distinct (map attr vs) \<Longrightarrow> length (filter (\<lambda>u. attr u = x) vs) = (if x \<in> attr ` set vs then 1 else 0)"
  by (induction vs) (auto simp: filter_empty_conv)

lemma count_concat:
  assumes "\<forall>vs \<in> set vss. distinct (map attr vs)"
  shows "length (filter (\<lambda>u. attr u = x) (concat vss)) = length (filter (\<lambda>vs. x \<in> attr ` set vs) vss)"
  using assms by (induction vss) (simp_all add: count_distinct)

lemma filter_length_all: "length (filter P xs) = length xs \<longleftrightarrow> (\<forall>x \<in> set xs. P x)"
  by (induction xs) (auto dest: length_filter_le [of P, THEN le_trans] simp: le_imp_less_Suc less_imp_neq [OF le_imp_less_Suc [OF length_filter_le]])

text \<open>
  C11. \<open>union_list\<close> returns a list with the same columns as its argument, each once, and leaves the
  argument unchanged.
\<close>

theorem union_list_columns:
  assumes "mem_ok m" and "var_list m l vs F"
  shows "\<exists>l' m' ws F'. union_list m l = Inr (l', m') \<and> mem_ok m' \<and> var_list m' l' ws F' \<and> var_list m' l vs F \<and>
           attr ` set ws = attr ` set vs \<and> distinct (map attr ws)"
proof -
  obtain l' m' F' where r: "union_list m l = Inr (l', m')" "mem_ok m'" "agree {} m m'"
      "var_list m' l' (collected (\<lambda>us v. attr v \<notin> attr ` set us) [] vs) F'"
    using union_list_var [OF assms] by blast
  moreover have "var_list m' l vs F" by (rule var_list_frame [OF assms(2,1) r(3)]) simp_all
  ultimately show ?thesis
    using collected_columns [of "\<lambda>_. True" "[]" vs] collected_distinct [of "[]" "\<lambda>_. True" vs] by auto
qed

text \<open>
  C10. \<open>inter_list\<close> called with the number of arguments of a connective computes the intersection: when
  its list is the concatenation of one list per argument, each without repeated columns, the columns
  of the result are those that occur in the list of every argument, each once.
\<close>

theorem inter_list_columns:
  assumes "mem_ok m" and "var_list m l (concat vss) F" and "\<forall>vs \<in> set vss. distinct (map attr vs)" and "vss \<noteq> []"
  shows "\<exists>l' m' ws F'. inter_list m l (int (length vss)) = Inr (l', m') \<and> mem_ok m' \<and> var_list m' l' ws F' \<and>
           attr ` set ws = (\<Inter>vs \<in> set vss. attr ` set vs) \<and> distinct (map attr ws)"
proof -
  let ?Q = "\<lambda>x. int (length (filter (\<lambda>u. attr u = x) (concat vss))) = int (length vss)"
  obtain l' m' F' where r: "inter_list m l (int (length vss)) = Inr (l', m')" "mem_ok m'"
      "var_list m' l' (collected (\<lambda>us v. ?Q (attr v) \<and> attr v \<notin> attr ` set us) [] (concat vss)) F'"
    using inter_list_var [OF assms(1,2)] by blast
  have "?Q x \<longleftrightarrow> (\<forall>vs \<in> set vss. x \<in> attr ` set vs)" for x
    using count_concat [OF assms(3), of x] filter_length_all [of "\<lambda>vs. x \<in> attr ` set vs" vss] by simp
  then have "{x \<in> attr ` set (concat vss). ?Q x} = (\<Inter>vs \<in> set vss. attr ` set vs)"
    using assms(4) by (cases vss) auto
  with r collected_columns [of ?Q "[]" "concat vss"] collected_distinct [of "[]" ?Q "concat vss"]
  show ?thesis by auto
qed

text \<open>An instance: the list of the columns 1, 2 and 1 of one relation.\<close>

definition sample_vars :: vmem where
  "sample_vars = \<lparr>heap = [1 \<mapsto> ListHdr \<lparr>ltype = T_List, llength = 3, lhead = 2, ltail = 4\<rparr>,
     2 \<mapsto> ListCell \<lparr>cdata = Ptr 5, cnext = 3\<rparr>, 3 \<mapsto> ListCell \<lparr>cdata = Ptr 6, cnext = 4\<rparr>,
     4 \<mapsto> ListCell \<lparr>cdata = Ptr 5, cnext = 0\<rparr>,
     5 \<mapsto> Obj (zero_var\<lparr>varattno := 1\<rparr>), 6 \<mapsto> Obj (zero_var\<lparr>varattno := 2\<rparr>)], brk = 7\<rparr>"

lemma sample_vars_ok: "mem_ok sample_vars"
  by (simp add: mem_ok_def sample_vars_def)

lemma sample_vars_list:
  "var_list sample_vars 1 [zero_var\<lparr>varattno := 1\<rparr>, zero_var\<lparr>varattno := 2\<rparr>, zero_var\<lparr>varattno := 1\<rparr>] {1, 2, 3, 4}"
proof -
  have "list_rep sample_vars 1 T_List [(2, Ptr 5), (3, Ptr 6), (4, Ptr 5)]"
    by (simp add: list_rep_def sample_vars_def)
  from var_listI [OF this] show ?thesis by (simp add: footprint_def var_at_def sample_vars_def)
qed

theorem union_list_columns_witness:
  "\<exists>l' m' ws F'. union_list sample_vars 1 = Inr (l', m') \<and> var_list m' l' ws F' \<and> attr ` set ws = {(1, 0), (2, 0)} \<and>
     distinct (map attr ws)"
proof -
  have "attr ` set [zero_var\<lparr>varattno := 1\<rparr>, zero_var\<lparr>varattno := 2\<rparr>, zero_var\<lparr>varattno := 1\<rparr>] = {(1, 0), (2, 0)}"
    by (auto simp: attr_def zero_var_def)
  with union_list_columns [OF sample_vars_ok sample_vars_list] show ?thesis by metis
qed

theorem inter_list_columns_witness:
  "\<exists>l' m' ws F'. inter_list sample_vars 1 2 = Inr (l', m') \<and> var_list m' l' ws F' \<and> attr ` set ws = {(1, 0)}"
proof -
  let ?vss = "[[zero_var\<lparr>varattno := 1\<rparr>, zero_var\<lparr>varattno := 2\<rparr>], [zero_var\<lparr>varattno := 1\<rparr>]]"
  have v: "var_list sample_vars 1 (concat ?vss) {1, 2, 3, 4}" using sample_vars_list by simp
  have d: "\<forall>vs \<in> set ?vss. distinct (map attr vs)" by (simp add: attr_def zero_var_def)
  from inter_list_columns [OF sample_vars_ok v d] show ?thesis by (auto simp: attr_def zero_var_def)
qed

end
