(* ===== verification/Scope_Correct.thy ===== *)
theory Scope_Correct
  imports Null_Walker True_Var_Correct
begin

section \<open>The scopes the first pass builds\<close>

text \<open>
  For every query the walker builds a list whose first element is the scope of the enclosing query and
  whose further elements are the columns of the relations of the range table; \<open>getTrueVar\<close> looks a
  variable up in it. \<open>cols relid i k\<close> are the variables of the \<open>k\<close> columns from number \<open>i\<close>.
\<close>

definition column :: "nat \<Rightarrow> int \<Rightarrow> pg_var" where
  "column relid i = zero_var\<lparr>varattno := i, vartype := relid\<rparr>"

fun cols :: "nat \<Rightarrow> int \<Rightarrow> nat \<Rightarrow> pg_var list" where
  "cols relid i 0 = []"
| "cols relid i (Suc k) = column relid i # cols relid (i + 1) k"

lemma length_cols [simp]: "length (cols relid i k) = k"
  by (induction k arbitrary: i) auto

lemma nth_cols: "j < k \<Longrightarrow> cols relid i k ! j = column relid (i + int j)"
  by (induction k arbitrary: i j) (auto simp: nth_Cons ac_simps split: nat.splits)

lemma agree_Un: "agree A m1 m2 \<Longrightarrow> agree B m2 m3 \<Longrightarrow> B \<subseteq> A' \<union> {a. brk m1 \<le> a} \<Longrightarrow> A \<subseteq> A' \<Longrightarrow> agree A' m1 m3"
  using agree_trans_new [of A' m1 m2 B m3] agree_mono [of A m1 m2 A'] by blast

subsection \<open>The columns of one relation\<close>

definition columns_post ::
  "pg_catalog \<Rightarrow> nat \<Rightarrow> int \<Rightarrow> nat \<Rightarrow> wctx \<Rightarrow> pg_var list \<Rightarrow> nat set \<Rightarrow> pg_var list \<Rightarrow> nat set \<Rightarrow> (nat \<times> wctx) res \<Rightarrow> bool" where
  "columns_post cat relid i k c us R ss S r \<longleftrightarrow>
     (\<exists>rel' m' sch' R' S'. r = Inr (rel', c\<lparr>wmem := m', list_of_not_null_att_schem := sch'\<rparr>) \<and>
        mem_ok m' \<and> agree (R \<union> S) (wmem c) m' \<and> var_list m' rel' (us @ cols relid i k) R' \<and>
        var_list m' sch' (ss @ filter (\<lambda>v. get_pg_att_not_null cat relid (varattno v)) (cols relid i k)) S' \<and>
        R' \<inter> S' = {} \<and> R' \<subseteq> R \<union> {a. brk (wmem c) \<le> a} \<and> S' \<subseteq> S \<union> {a. brk (wmem c) \<le> a})"

lemma columns_step:
  assumes ok: "mem_ok m" and rel: "var_list m rel us R" and sch: "var_list m sch ss S" and dis: "R \<inter> S = {}"
    and p: "palloc m (Obj v) = (p, m1)"
  shows "\<exists>rel' m2 R'. lappend m1 rel p = Inr (rel', m2) \<and> mem_ok m2 \<and> agree (R \<union> S) m m2 \<and> heap m2 p = Some (Obj v) \<and>
    var_list m2 rel' (us @ [v]) R' \<and> var_list m2 sch ss S \<and> R' \<inter> S = {} \<and> R' \<subseteq> R \<union> {a. brk m \<le> a}"
proof -
  note ok1 = mem_ok_palloc [OF ok p] and ag1 = agree_palloc [OF p, of "{}"]
  have p': "p = brk m" "heap m1 p = Some (Obj v)" "brk m1 = Suc (brk m)" using p by (auto simp: palloc_def)
  have rel1: "var_list m1 rel us R" by (rule var_list_frame [OF rel ok ag1]) simp_all
  have sch1: "var_list m1 sch ss S" by (rule var_list_frame [OF sch ok ag1]) simp_all
  from lappend_var [OF ok1 rel1 p'(2)] obtain rel' m2 R' where r: "lappend m1 rel p = Inr (rel', m2)" "mem_ok m2"
    "agree R m1 m2" "var_list m2 rel' (us @ [v]) R'" "R' \<subseteq> R \<union> {a. brk m1 \<le> a}"
    by (elim exE conjE)
  note of1 = obj_free_var_list [OF rel1]
  have "var_list m2 sch ss S" by (rule var_list_frame [OF sch1 ok1 r(3) of1]) (use dis in auto)
  moreover have "heap m2 p = Some (Obj v)" by (rule obj_frame [OF ok1 r(3) of1 p'(2)])
  moreover have "R' \<inter> S = {}" using r(5) dis var_list_below [OF sch ok] p'(3) by fastforce
  moreover have "agree (R \<union> S) m m2" by (rule agree_Un [OF ag1 r(3)]) auto
  moreover have "R' \<subseteq> R \<union> {a. brk m \<le> a}" using r(5) p'(3) by auto
  ultimately show ?thesis using r(1,2,4) by blast
qed

lemma columns_loop_spec:
  assumes "mem_ok (wmem c)" and "var_list (wmem c) rel us R"
    and "var_list (wmem c) (list_of_not_null_att_schem c) ss S" and "R \<inter> S = {}"
  shows "columns_post cat relid i k c us R ss S (columns_loop cat relid i k rel c)"
  using assms
proof (induction k arbitrary: i rel c us R ss S)
  case 0
  then show ?case unfolding columns_post_def
    by (intro exI [of _ rel] exI [of _ "wmem c"] exI [of _ "list_of_not_null_att_schem c"] exI [of _ R] exI [of _ S]) auto
next
  case (Suc k)
  let ?v = "column relid i" and ?nn = "get_pg_att_not_null cat relid i"
  obtain p m1 where p: "palloc (wmem c) (Obj ?v) = (p, m1)" by fastforce
  from columns_step [OF Suc.prems p] obtain rel' m2 R1 where
    s: "lappend m1 rel p = Inr (rel', m2)" "mem_ok m2" "agree (R \<union> S) (wmem c) m2" "heap m2 p = Some (Obj ?v)"
      "var_list m2 rel' (us @ [?v]) R1" "var_list m2 (list_of_not_null_att_schem c) ss S" "R1 \<inter> S = {}"
      "R1 \<subseteq> R \<union> {a. brk (wmem c) \<le> a}"
    by (elim exE conjE)
  obtain sch' m3 S1 where t: "(if ?nn then lappend m2 (list_of_not_null_att_schem c) p else Inr (list_of_not_null_att_schem c, m2)) = Inr (sch', m3)"
      "mem_ok m3" "agree S m2 m3" "var_list m3 sch' (ss @ (if ?nn then [?v] else [])) S1" "S1 \<subseteq> S \<union> {a. brk m2 \<le> a}"
    using lappend_var [OF s(2,6,4)] s(2,6) by (cases ?nn) auto
  have R1: "var_list m3 rel' (us @ [?v]) R1"
    by (rule var_list_frame [OF s(5,2) t(3) obj_free_var_list [OF s(6)] s(7)])
  have dis: "R1 \<inter> S1 = {}" using t(5) s(7) var_list_below [OF s(5,2)] by fastforce
  have brk: "brk (wmem c) \<le> brk m2" "brk m2 \<le> brk m3" using s(3) t(3) by (simp_all add: agree_def)
  have ag: "agree (R \<union> S) (wmem c) m3" by (rule agree_Un [OF s(3) t(3)]) auto
  let ?c = "c\<lparr>wmem := m3, list_of_not_null_att_schem := sch'\<rparr>"
  have call: "columns_loop cat relid i (Suc k) rel c = columns_loop cat relid (i + 1) k rel' ?c"
  proof (cases ?nn)
    case True
    then show ?thesis using p s(1) t(1) by (simp add: column_def)
  next
    case False
    then have "sch' = list_of_not_null_att_schem c" "m3 = m2" using t(1) by auto
    moreover from this have "?c = c\<lparr>wmem := m2\<rparr>" by (cases c) simp
    ultimately show ?thesis using p s(1) False by (simp add: column_def)
  qed
  from Suc.IH [of ?c rel' "us @ [?v]" R1 "ss @ (if ?nn then [?v] else [])" S1 "i + 1"] t(2,4) R1 dis
  have "columns_post cat relid (i + 1) k ?c (us @ [?v]) R1 (ss @ (if ?nn then [?v] else [])) S1
      (columns_loop cat relid (i + 1) k rel' ?c)"
    by simp
  then obtain rel2 m' sch2 R' S' where
    r: "columns_loop cat relid (i + 1) k rel' ?c = Inr (rel2, ?c\<lparr>wmem := m', list_of_not_null_att_schem := sch2\<rparr>)"
      "mem_ok m'" "agree (R1 \<union> S1) m3 m'" "var_list m' rel2 ((us @ [?v]) @ cols relid (i + 1) k) R'"
      "var_list m' sch2 ((ss @ (if ?nn then [?v] else [])) @
          filter (\<lambda>v. get_pg_att_not_null cat relid (varattno v)) (cols relid (i + 1) k)) S'"
      "R' \<inter> S' = {}" "R' \<subseteq> R1 \<union> {a. brk m3 \<le> a}" "S' \<subseteq> S1 \<union> {a. brk m3 \<le> a}"
    unfolding columns_post_def by auto
  have "agree (R \<union> S) (wmem c) m'"
    by (rule agree_Un [OF ag r(3)]) (use s(8) t(5) brk in auto)
  moreover have "R' \<subseteq> R \<union> {a. brk (wmem c) \<le> a}" "S' \<subseteq> S \<union> {a. brk (wmem c) \<le> a}"
  proof -
    have "{a. brk m3 \<le> a} \<subseteq> {a. brk (wmem c) \<le> a}" "{a. brk m2 \<le> a} \<subseteq> {a. brk (wmem c) \<le> a}" using brk by auto
    then show "R' \<subseteq> R \<union> {a. brk (wmem c) \<le> a}" "S' \<subseteq> S \<union> {a. brk (wmem c) \<le> a}"
      using r(7,8) s(8) t(5) by blast+
  qed
  moreover have "varattno ?v = i" by (simp add: column_def)
  ultimately show ?case
    unfolding columns_post_def call r(1) using r(2,4,5,6)
    by (intro exI [of _ rel2] exI [of _ m'] exI [of _ sch2] exI [of _ R'] exI [of _ S']) auto
qed

subsection \<open>The scope of one query\<close>

definition scope :: "vmem \<Rightarrow> nat \<Rightarrow> nat \<Rightarrow> (nat \<times> nat) list \<Rightarrow> nat set \<Rightarrow> nat set \<Rightarrow> bool" where
  "scope m cur saved rels C R \<longleftrightarrow>
     (\<exists>ps. owns m cur T_List (map Ptr (saved # ps)) C \<and>
           list_all2 (\<lambda>p (relid, n). \<exists>Q. Q \<subseteq> R \<and> var_list m p (cols relid 1 n) Q) ps rels)"

text \<open>
  The state while a range table is walked: \<open>m0\<close> is the memory the query was entered with and \<open>S0\<close>
  the list of the non-null columns of the schema then. Everything else the walk writes is new.
\<close>

definition scope_inv :: "vmem \<Rightarrow> nat set \<Rightarrow> nat \<Rightarrow> (nat \<times> nat) list \<Rightarrow> pg_var list \<Rightarrow> wctx \<Rightarrow> bool" where
  "scope_inv m0 S0 saved rels ss c \<longleftrightarrow>
     (\<exists>C R S. mem_ok (wmem c) \<and> scope (wmem c) (current_trueVar c) saved rels C R \<and>
        var_list (wmem c) (list_of_not_null_att_schem c) ss S \<and> C \<inter> R = {} \<and> (C \<union> R) \<inter> S = {} \<and>
        R \<subseteq> {a. a < brk (wmem c)} \<and> agree S0 m0 (wmem c) \<and> C \<union> R \<subseteq> {a. brk m0 \<le> a} \<and>
        S \<subseteq> S0 \<union> {a. brk m0 \<le> a})"

lemma obj_free_owns: "owns m l tag vs F \<Longrightarrow> obj_free m F"
  by (auto simp: owns_def intro: obj_free_list)

lemma scope_frame:
  assumes "scope m cur saved rels C R" and "mem_ok m" and "agree A m m'" and "obj_free m A" and "(C \<union> R) \<inter> A = {}"
  shows "scope m' cur saved rels C R"
proof -
  obtain ps where ps: "owns m cur T_List (map Ptr (saved # ps)) C"
    "list_all2 (\<lambda>p (relid, n). \<exists>Q. Q \<subseteq> R \<and> var_list m p (cols relid 1 n) Q) ps rels"
    using assms(1) unfolding scope_def by blast
  have "owns m' cur T_List (map Ptr (saved # ps)) C"
    using owns_frame [OF ps(1) assms(2,3)] assms(5) by auto
  moreover have "list_all2 (\<lambda>p (relid, n). \<exists>Q. Q \<subseteq> R \<and> var_list m' p (cols relid 1 n) Q) ps rels"
    using ps(2)
  proof (rule list_all2_mono, clarify)
    fix p relid n Q assume "Q \<subseteq> R" "var_list m p (cols relid 1 n) Q"
    moreover from this have "var_list m' p (cols relid 1 n) Q"
      using var_list_frame [OF _ assms(2-4), of p "cols relid 1 n" Q] assms(5) by auto
    ultimately show "\<exists>Q\<subseteq>R. var_list m' p (cols relid 1 n) Q" by blast
  qed
  ultimately show ?thesis unfolding scope_def by blast
qed

lemma scope_append:
  assumes ok: "mem_ok m" and sc: "scope m cur saved rels C R" and new: "var_list m p (cols relid 1 n) Q"
    and dis: "C \<inter> (R \<union> Q) = {}" and low: "R \<union> Q \<subseteq> {a. a < brk m}"
  shows "\<exists>cur' m' C'. lappend m cur p = Inr (cur', m') \<and> mem_ok m' \<and> agree C m m' \<and>
           scope m' cur' saved (rels @ [(relid, n)]) C' (R \<union> Q) \<and> C' \<subseteq> C \<union> {a. brk m \<le> a}"
proof -
  obtain ps cs where ps: "list_rep m cur T_List cs" "map snd cs = map Ptr (saved # ps)" "C = footprint cur cs"
    "list_all2 (\<lambda>p (relid, n). \<exists>Q. Q \<subseteq> R \<and> var_list m p (cols relid 1 n) Q) ps rels"
    using sc unfolding scope_def owns_def by blast
  from lappend_with_yields [OF ok ps(1), of "Ptr p"] obtain cur' m' cs' where
    r: "lappend m cur p = Inr (cur', m')" "mem_ok m'" "agree C m m'" "list_rep m' cur' T_List cs'"
      "map snd cs' = map Ptr (saved # ps @ [p])" "footprint cur' cs' \<subseteq> C \<union> {a. brk m \<le> a}"
    unfolding lappend_def ps(2,3) by (auto elim!: yieldsE)
  note fr = var_list_frame [OF _ ok r(3), folded ps(3)] and of = obj_free_list [OF ps(1), folded ps(3)]
  have "list_all2 (\<lambda>p (relid, n). \<exists>Q'. Q' \<subseteq> R \<union> Q \<and> var_list m' p (cols relid 1 n) Q') ps rels"
    using ps(4)
  proof (rule list_all2_mono, clarify)
    fix p relid n Q' assume q: "Q' \<subseteq> R" "var_list m p (cols relid 1 n) Q'"
    then have "var_list m' p (cols relid 1 n) Q'" using fr [OF q(2) of] dis by auto
    with q(1) show "\<exists>Q'\<subseteq>R \<union> Q. var_list m' p (cols relid 1 n) Q'" by blast
  qed
  moreover have "var_list m' p (cols relid 1 n) Q" using fr [OF new of] dis by auto
  ultimately have "list_all2 (\<lambda>p (relid, n). \<exists>Q'. Q' \<subseteq> R \<union> Q \<and> var_list m' p (cols relid 1 n) Q')
      (ps @ [p]) (rels @ [(relid, n)])"
    by (intro list_all2_appendI) auto
  moreover have "owns m' cur' T_List (map Ptr (saved # ps @ [p])) (footprint cur' cs')"
    using ownsI [OF r(4)] r(5) by simp
  ultimately have "scope m' cur' saved (rels @ [(relid, n)]) (footprint cur' cs') (R \<union> Q)"
    unfolding scope_def by blast
  with r(1-3,6) show ?thesis by blast
qed

lemma relation_step_spec:
  assumes inv: "scope_inv m0 S0 saved rels ss c" and n: "get_relnatts cat relid = int n" "n < 2 ^ 15 - 1"
  shows "\<exists>c'. relation_step cat relid c = Inr c' \<and> trueVars c' = trueVars c \<and>
    scope_inv m0 S0 saved (rels @ [(relid, n)])
      (ss @ filter (\<lambda>v. get_pg_att_not_null cat relid (varattno v)) (cols relid 1 n)) c'"
proof -
  obtain C R S where i: "mem_ok (wmem c)" "scope (wmem c) (current_trueVar c) saved rels C R"
    "var_list (wmem c) (list_of_not_null_att_schem c) ss S" "C \<inter> R = {}" "(C \<union> R) \<inter> S = {}"
    "R \<subseteq> {a. a < brk (wmem c)}" "agree S0 m0 (wmem c)" "C \<union> R \<subseteq> {a. brk m0 \<le> a}" "S \<subseteq> S0 \<union> {a. brk m0 \<le> a}"
    using inv unfolding scope_inv_def by (elim exE conjE)
  let ?ss = "ss @ filter (\<lambda>v. get_pg_att_not_null cat relid (varattno v)) (cols relid 1 n)"
  have "columns_post cat relid 1 n c [] {} ss S (columns_loop cat relid 1 n 0 c)"
    by (rule columns_loop_spec [OF i(1) _ i(3)]) simp_all
  then obtain p m1 sch' Q S' where
    l: "columns_loop cat relid 1 n 0 c = Inr (p, c\<lparr>wmem := m1, list_of_not_null_att_schem := sch'\<rparr>)"
      "mem_ok m1" "agree S (wmem c) m1" "var_list m1 p (cols relid 1 n) Q" "var_list m1 sch' ?ss S'"
      "Q \<inter> S' = {}" "Q \<subseteq> {a. brk (wmem c) \<le> a}" "S' \<subseteq> S \<union> {a. brk (wmem c) \<le> a}"
    unfolding columns_post_def by auto
  have C: "C \<subseteq> {a. a < brk (wmem c)}" using i(1,2) unfolding scope_def by (auto dest: owns_below)
  have brk: "brk (wmem c) \<le> brk m1" "brk m0 \<le> brk (wmem c)" using l(3) i(7) by (simp_all add: agree_def)
  have Q: "Q \<subseteq> {a. a < brk m1}" by (rule var_list_below [OF l(4,2)])
  have sc: "scope m1 (current_trueVar c) saved rels C R"
    by (rule scope_frame [OF i(2,1) l(3) obj_free_var_list [OF i(3)] i(5)])
  have d1: "C \<inter> (R \<union> Q) = {}" using i(4) C l(7) by fastforce
  have d2: "R \<union> Q \<subseteq> {a. a < brk m1}" using i(6) Q brk by auto
  from scope_append [OF l(2) sc l(4) d1 d2] obtain cur' m2 C' where
    a: "lappend m1 (current_trueVar c) p = Inr (cur', m2)" "mem_ok m2" "agree C m1 m2"
      "scope m2 cur' saved (rels @ [(relid, n)]) C' (R \<union> Q)" "C' \<subseteq> C \<union> {a. brk m1 \<le> a}"
    by (elim exE conjE)
  have CS: "C \<inter> S' = {}" using i(5) C l(8) by fastforce
  have ofC: "obj_free m1 C" using sc unfolding scope_def by (auto intro: obj_free_owns)
  have S2: "var_list m2 sch' ?ss S'" by (rule var_list_frame [OF l(5,2) a(3) ofC]) (use CS in auto)
  have S': "S' \<subseteq> {a. a < brk m1}" by (rule var_list_below [OF l(5,2)])
  have "C' \<inter> (R \<union> Q) = {}" using a(5) d1 d2 by fastforce
  moreover have "(C' \<union> (R \<union> Q)) \<inter> S' = {}"
  proof -
    have "C' \<inter> S' = {}" using a(5) CS S' by fastforce
    moreover have "R \<inter> S' = {}" using i(5,6) l(8) by fastforce
    ultimately show ?thesis using l(6) by auto
  qed
  moreover have "R \<union> Q \<subseteq> {a. a < brk m2}" using d2 a(3) by (auto simp: agree_def)
  moreover have "agree S0 m0 m2"
  proof (rule agree_trans_new [OF _ a(3)])
    show "agree S0 m0 m1" by (rule agree_trans_new [OF i(7) l(3) i(9)])
    show "C \<subseteq> S0 \<union> {a. brk m0 \<le> a}" using i(8) by auto
  qed
  moreover have "C' \<union> (R \<union> Q) \<subseteq> {a. brk m0 \<le> a}" "S' \<subseteq> S0 \<union> {a. brk m0 \<le> a}"
    using i(8,9) a(5) l(7,8) brk by auto
  ultimately have "scope_inv m0 S0 saved (rels @ [(relid, n)]) ?ss
      (c\<lparr>wmem := m2, list_of_not_null_att_schem := sch', current_trueVar := cur'\<rparr>)"
    using a(2,4) S2 unfolding scope_inv_def
    by (intro exI [of _ C'] exI [of _ "R \<union> Q"] exI [of _ S'] conjI) simp_all
  moreover have "relation_step cat relid c =
      Inr (c\<lparr>wmem := m2, list_of_not_null_att_schem := sch', current_trueVar := cur'\<rparr>)"
    using l(1) a(1) n by (simp add: relation_step_def)
  ultimately show ?thesis by simp
qed

subsection \<open>The range table of a query\<close>

fun relation_rte :: "pg_catalog \<Rightarrow> node \<Rightarrow> nat \<times> nat \<Rightarrow> bool" where
  "relation_rte cat (RangeTblEntry k r q al er f) (relid, n) \<longleftrightarrow>
     k = RTE_RELATION \<and> r = relid \<and> get_relnatts cat relid = int n \<and> n < 2 ^ 15 - 1"
| "relation_rte cat _ _ \<longleftrightarrow> False"

definition schema_not_null :: "pg_catalog \<Rightarrow> (nat \<times> nat) list \<Rightarrow> pg_var list" where
  "schema_not_null cat rels =
     concat (map (\<lambda>(relid, n). filter (\<lambda>v. get_pg_att_not_null cat relid (varattno v)) (cols relid 1 n)) rels)"

lemma walk_relations:
  assumes "list_all2 (relation_rte cat) rtes rels" and "scope_inv m0 S0 saved rels0 ss c"
  shows "\<exists>c'. walk_list (codd_walker cat) (map Inr rtes) c = Inr (False, c') \<and> trueVars c' = trueVars c \<and>
           scope_inv m0 S0 saved (rels0 @ rels) (ss @ schema_not_null cat rels) c'"
  using assms
proof (induction rtes rels arbitrary: rels0 ss c rule: list_all2_induct)
  case Nil
  then show ?case by (simp add: schema_not_null_def)
next
  case (Cons rte rtes rel rels)
  obtain relid n where rel: "rel = (relid, n)" by (cases rel)
  with Cons.hyps(1) obtain q al er f where rte: "rte = RangeTblEntry RTE_RELATION relid q al er f"
    and n: "get_relnatts cat relid = int n" "n < 2 ^ 15 - 1"
    by (cases rte) auto
  from relation_step_spec [OF Cons.prems n] obtain c1 where
    c1: "relation_step cat relid c = Inr c1" "trueVars c1 = trueVars c"
      "scope_inv m0 S0 saved (rels0 @ [(relid, n)])
        (ss @ filter (\<lambda>v. get_pg_att_not_null cat relid (varattno v)) (cols relid 1 n)) c1"
    by (elim exE conjE)
  have "codd_walker cat rte c = Inr (False, c1)" using c1(1) by (simp add: rte codd_walker.simps)
  with Cons.IH [OF c1(3)] c1(2) show ?case by (auto simp: rel schema_not_null_def)
qed

lemma query_enter_scope:
  assumes "mem_ok (wmem c)" and "var_list (wmem c) (list_of_not_null_att_schem c) ss S0"
  shows "\<exists>c'. query_enter c = Inr c' \<and> trueVars c' = trueVars c \<and>
           scope_inv (wmem c) S0 (current_trueVar c) [] ss c'"
proof -
  have rep: "list_rep (wmem c) 0 T_List []" by simp
  from lappend_with_yields [OF assms(1) rep, of "Ptr (current_trueVar c)"] obtain l m C where
    r: "lappend (wmem c) 0 (current_trueVar c) = Inr (l, m)" "mem_ok m" "agree {} (wmem c) m"
      "owns m l T_List [Ptr (current_trueVar c)] C" "C \<subseteq> {a. brk (wmem c) \<le> a}"
    unfolding yields_def lappend_def by auto
  have "var_list m (list_of_not_null_att_schem c) ss S0" by (rule var_list_frame [OF assms(2,1) r(3)]) simp_all
  moreover have "C \<inter> S0 = {}" using r(5) var_list_below [OF assms(2,1)] by fastforce
  moreover have "agree S0 (wmem c) m" using agree_mono [OF r(3)] by simp
  moreover have "scope m l (current_trueVar c) [] C {}" using r(4) by (simp add: scope_def)
  ultimately have "scope_inv (wmem c) S0 (current_trueVar c) [] ss (c\<lparr>wmem := m, current_trueVar := l\<rparr>)"
    unfolding scope_inv_def using r(2,5)
    by (intro exI [of _ C] exI [of _ "{}"] exI [of _ S0] conjI) simp_all
  then show ?thesis using r(1) by (simp add: query_enter_def)
qed

lemma var_list_nth:
  assumes "var_list m l vs F" and "i < length vs"
  shows "\<exists>p. list_nth m l (int i) = Inr p \<and> load_obj m p = Inr (vs ! i)"
proof -
  obtain cs where cs: "list_rep m l T_List cs" "list_all2 (var_at m) (map snd cs) vs"
    using assms(1) by (rule var_listE)
  then have "i < length cs" "var_at m (snd (cs ! i)) (vs ! i)"
    using assms(2) by (auto simp: list_all2_conv_all_nth)
  then show ?thesis
    using list_nth_rep(1) [OF cs(1), of "int i"] by (auto simp: var_at_def load_obj_iff)
qed

lemma scope_nth:
  assumes "scope m cur saved rels C R"
  shows "list_nth m cur 0 = Inr saved"
    and "k < length rels \<Longrightarrow> \<exists>p Q. list_nth m cur (int (Suc k)) = Inr p \<and> var_list m p (cols (fst (rels ! k)) 1 (snd (rels ! k))) Q"
proof -
  obtain ps cs where ps: "list_rep m cur T_List cs" "map snd cs = map Ptr (saved # ps)"
    "list_all2 (\<lambda>p (relid, n). \<exists>Q. Q \<subseteq> R \<and> var_list m p (cols relid 1 n) Q) ps rels"
    using assms unfolding scope_def owns_def by blast
  have len: "length cs = Suc (length ps)" using map_eq_imp_length_eq [OF ps(2)] by simp
  have nth: "snd (cs ! i) = Ptr ((saved # ps) ! i)" if "i < Suc (length ps)" for i
    using arg_cong [OF ps(2), of "\<lambda>xs. xs ! i"] that len by (cases i) auto
  show "list_nth m cur 0 = Inr saved" using list_nth_rep(1) [OF ps(1), of 0] nth [of 0] len by simp
  show "\<exists>p Q. list_nth m cur (int (Suc k)) = Inr p \<and> var_list m p (cols (fst (rels ! k)) 1 (snd (rels ! k))) Q"
    if "k < length rels"
  proof -
    have l: "length ps = length rels" using ps(3) by (rule list_all2_lengthD)
    have "\<exists>Q. var_list m (ps ! k) (cols (fst (rels ! k)) 1 (snd (rels ! k))) Q"
      using list_all2_nthD2 [OF ps(3) that] by (auto simp: case_prod_beta)
    moreover have "list_nth m cur (int (Suc k)) = Inr (ps ! k)"
      using list_nth_rep(1) [OF ps(1), of "int (Suc k)"] nth [of "Suc k"] len l that by (simp del: of_nat_Suc)
    ultimately show ?thesis by blast
  qed
qed

subsection \<open>Resolving variables\<close>


definition sample_catalog :: pg_catalog where
  "sample_catalog = \<lparr>rel_natts = (\<lambda>r. Some 2), att_notnull = (\<lambda>r i. Some (i = 1))\<rparr>"


end
