(* ===== verification/Join_Graph.thy ===== *)
theory Join_Graph
  imports Main
begin

section \<open>Connected components, abstractly\<close>

text \<open>
  The specification of the first half of \<open>exist_optimize.c\<close>. Relations are numbered from 1 and all
  outer queries together are the number 0. A state \<open>(cs, sub)\<close> has the components that are not
  connected to an outer query and the relations that are; \<open>add_edge\<close> is what one comparison of two
  variables does to it. A variable is given by its number and whether it belongs to an outer query.
\<close>

type_synonym side = "int \<times> bool"
type_synonym partition = "int list list \<times> int list"

definition vertex :: "side \<Rightarrow> int" where
  "vertex s = (if snd s then 0 else fst s)"

definition comp_of :: "int \<Rightarrow> int list list \<Rightarrow> int list" where
  "comp_of v cs = (case find (\<lambda>c. v \<in> set c) cs of Some c \<Rightarrow> c | None \<Rightarrow> [])"

definition without :: "int \<Rightarrow> int list list \<Rightarrow> int list list" where
  "without v cs = filter (\<lambda>c. v \<notin> set c) cs"

fun add_edge :: "side \<times> side \<Rightarrow> partition \<Rightarrow> partition" where
  "add_edge ((v, ov), (w, ow)) (cs, sub) =
     (let s1 = (ov \<or> v \<in> set sub); s2 = (w \<in> set sub \<or> ow)
      in if s1 \<and> s2 then (cs, sub)
         else if s1 then (without w cs, sub @ comp_of w cs)
         else if s2 then (without v cs, sub @ comp_of v cs)
         else if w \<in> set (comp_of v cs) then (cs, sub)
         else (without w (without v cs) @ [comp_of v cs @ comp_of w cs], sub))"

definition partitions :: "int \<Rightarrow> partition \<Rightarrow> bool" where
  "partitions n st \<longleftrightarrow>
     distinct (concat (fst st) @ snd st) \<and> set (concat (fst st) @ snd st) = {1..n} \<and> [] \<notin> set (fst st)"

definition same_block :: "partition \<Rightarrow> int \<Rightarrow> int \<Rightarrow> bool" where
  "same_block st x y \<longleftrightarrow>
     x \<in> insert 0 (set (snd st)) \<and> y \<in> insert 0 (set (snd st)) \<or> (\<exists>c \<in> set (fst st). x \<in> set c \<and> y \<in> set c)"

subsection \<open>Connectedness\<close>

definition conn :: "(int \<times> int) set \<Rightarrow> (int \<times> int) set" where
  "conn E = (E \<union> E\<inverse>)\<^sup>*"

lemma conn_refl [simp]: "(x, x) \<in> conn E"
  by (simp add: conn_def)

lemma conn_trans: "(x, y) \<in> conn E \<Longrightarrow> (y, z) \<in> conn E \<Longrightarrow> (x, z) \<in> conn E"
  unfolding conn_def by (rule rtrancl_trans)

lemma conn_sym: "(x, y) \<in> conn E \<Longrightarrow> (y, x) \<in> conn E"
proof -
  have "sym ((E \<union> E\<inverse>)\<^sup>*)" by (rule sym_rtrancl) (auto simp: sym_def)
  then show "(x, y) \<in> conn E \<Longrightarrow> (y, x) \<in> conn E" by (simp add: conn_def symD)
qed

lemma conn_mono: "E \<subseteq> F \<Longrightarrow> conn E \<subseteq> conn F"
  unfolding conn_def by (rule rtrancl_mono) auto

lemma conn_edge: "(x, y) \<in> E \<Longrightarrow> (x, y) \<in> conn E"
  unfolding conn_def by auto

lemma conn_insert:
  "(x, y) \<in> conn (insert (u, v) E) \<longleftrightarrow>
     (x, y) \<in> conn E \<or> (x, u) \<in> conn E \<and> (v, y) \<in> conn E \<or> (x, v) \<in> conn E \<and> (u, y) \<in> conn E"
proof
  have mono: "conn E \<subseteq> conn (insert (u, v) E)" by (rule conn_mono) auto
  have uv: "(u, v) \<in> conn (insert (u, v) E)" by (rule conn_edge) simp
  assume "(x, y) \<in> conn E \<or> (x, u) \<in> conn E \<and> (v, y) \<in> conn E \<or> (x, v) \<in> conn E \<and> (u, y) \<in> conn E"
  then show "(x, y) \<in> conn (insert (u, v) E)"
    using mono uv conn_sym [OF uv] conn_trans by blast
next
  assume "(x, y) \<in> conn (insert (u, v) E)"
  then have "(x, y) \<in> (insert (u, v) E \<union> (insert (u, v) E)\<inverse>)\<^sup>*" by (simp add: conn_def)
  then show "(x, y) \<in> conn E \<or> (x, u) \<in> conn E \<and> (v, y) \<in> conn E \<or> (x, v) \<in> conn E \<and> (u, y) \<in> conn E"
  proof (induction rule: rtrancl_induct)
    case base
    show ?case by simp
  next
    case (step y z)
    from step.hyps(2) consider "(y, z) \<in> conn E" | "y = u" "z = v" | "y = v" "z = u"
      using conn_edge [of y z E] conn_sym [OF conn_edge [of z y E]] by auto
    then show ?case
      using step.IH conn_trans conn_sym conn_refl by cases blast+
  qed
qed

subsection \<open>Blocks\<close>

lemma partitions_comp:
  assumes "partitions n (cs, sub)" and "v \<in> {1..n}" and "v \<notin> set sub"
  shows "comp_of v cs \<in> set cs" and "v \<in> set (comp_of v cs)"
proof -
  have "v \<in> set (concat cs @ sub)" using assms(1,2) unfolding partitions_def by simp
  then have "\<exists>c \<in> set cs. v \<in> set c" using assms(3) by simp
  then obtain c where "find (\<lambda>c. v \<in> set c) cs = Some c"
    by (cases "find (\<lambda>c. v \<in> set c) cs") (auto simp: find_None_iff)
  moreover from this have "c \<in> set cs \<and> v \<in> set c" by (auto simp: find_Some_iff)
  ultimately show "comp_of v cs \<in> set cs" "v \<in> set (comp_of v cs)" by (simp_all add: comp_of_def)
qed

lemma partitions_unique:
  assumes "distinct (concat cs)" and "c \<in> set cs" and "d \<in> set cs" and "x \<in> set c" and "x \<in> set d"
  shows "c = d"
  using assms by (induction cs) auto

lemma without_others:
  assumes "distinct (concat cs)" and "c \<in> set cs" and "v \<in> set c"
  shows "set (without v cs) = set cs - {c}"
  using partitions_unique [OF assms(1) assms(2)] assms(2,3) unfolding without_def by fastforce

lemma distinct_elem: "distinct (concat cs) \<Longrightarrow> c \<in> set cs \<Longrightarrow> distinct c"
  by (induction cs) auto

lemma distinct_filter_concat: "distinct (concat cs) \<Longrightarrow> distinct (concat (filter P cs))"
  by (induction cs) auto

lemma distinct_without: "distinct (concat cs) \<Longrightarrow> distinct (concat (without v cs))"
  unfolding without_def by (rule distinct_filter_concat)

lemma same_block_refl:
  assumes "partitions n st" and "x \<in> {0..n}"
  shows "same_block st x x"
proof (cases "x = 0")
  case False
  then have "x \<in> set (concat (fst st) @ snd st)" using assms unfolding partitions_def by auto
  then show ?thesis by (auto simp: same_block_def)
qed (simp add: same_block_def)

text \<open>The state after some edges: a partition whose blocks are the connected components.\<close>

definition components_of :: "int \<Rightarrow> (int \<times> int) set \<Rightarrow> partition \<Rightarrow> bool" where
  "components_of n E st \<longleftrightarrow>
     partitions n st \<and> (\<forall>x \<in> {0..n}. \<forall>y \<in> {0..n}. (x, y) \<in> conn E \<longleftrightarrow> same_block st x y)"

lemma same_block_sym: "same_block st x y \<longleftrightarrow> same_block st y x"
  by (auto simp: same_block_def)

lemma block_zero:
  assumes "partitions n (cs, sub)" and "u \<in> insert 0 (set sub)"
  shows "same_block (cs, sub) x u \<longleftrightarrow> x \<in> insert 0 (set sub)"
proof -
  have "c \<in> set cs \<Longrightarrow> u \<notin> set c" for c
  proof -
    assume c: "c \<in> set cs"
    have "set (concat cs) \<inter> set sub = {}" "set (concat cs) \<subseteq> {1..n}" using assms(1) by (auto simp: partitions_def)
    then show "u \<notin> set c" using c assms(2) by fastforce
  qed
  then show ?thesis using assms(2) by (auto simp: same_block_def)
qed

lemma block_comp:
  assumes "partitions n (cs, sub)" and "c \<in> set cs" and "w \<in> set c"
  shows "same_block (cs, sub) x w \<longleftrightarrow> x \<in> set c" and "w \<notin> insert 0 (set sub)"
proof -
  have d: "distinct (concat cs)" "set (concat cs) \<inter> set sub = {}" "set (concat cs) \<subseteq> {1..n}"
    using assms(1) by (auto simp: partitions_def)
  have "w \<in> set (concat cs)" using assms(2,3) by auto
  with d(2,3) show w: "w \<notin> insert 0 (set sub)" by fastforce
  show "same_block (cs, sub) x w \<longleftrightarrow> x \<in> set c"
  proof
    assume "same_block (cs, sub) x w"
    then obtain e where e: "e \<in> set cs" "x \<in> set e" "w \<in> set e" using w by (auto simp: same_block_def)
    then have "c = e" using partitions_unique [OF d(1) assms(2) _ assms(3)] by simp
    with e show "x \<in> set c" by simp
  next
    assume "x \<in> set c"
    then show "same_block (cs, sub) x w" using assms(2,3) by (auto simp: same_block_def)
  qed
qed

lemma merge_into_zero:
  assumes part: "partitions n (cs, sub)" and b: "b \<in> set cs" "w \<in> set b" and u: "u \<in> insert 0 (set sub)"
  shows "partitions n (without w cs, sub @ b)"
    and "same_block (without w cs, sub @ b) x y \<longleftrightarrow>
      same_block (cs, sub) x y \<or> same_block (cs, sub) x u \<and> same_block (cs, sub) w y \<or>
      same_block (cs, sub) x w \<and> same_block (cs, sub) u y"
proof -
  have p: "distinct (concat cs @ sub)" "set (concat cs @ sub) = {1..n}" "[] \<notin> set cs"
    using part by (simp_all add: partitions_def)
  then have w: "set (without w cs) = set cs - {b}" using without_others [OF _ b] by simp
  have cat: "set (concat cs) = set (concat (without w cs)) \<union> set b" using w b(1) by auto
  have "set b \<inter> set (concat (without w cs)) = {}"
  proof (rule ccontr)
    assume "set b \<inter> set (concat (without w cs)) \<noteq> {}"
    then obtain z c where "z \<in> set b" "c \<in> set (without w cs)" "z \<in> set c" by auto
    moreover from this have "c \<in> set cs" "c \<noteq> b" using w by auto
    ultimately show False using partitions_unique [of cs b c z] b(1) p(1) by simp
  qed
  moreover have "set b \<inter> set sub = {}" using p(1) cat by auto
  moreover have "distinct b" using distinct_elem [OF _ b(1)] p(1) by simp
  ultimately show "partitions n (without w cs, sub @ b)"
    using p cat w distinct_without [of cs w] unfolding partitions_def by auto
  have x: "same_block (cs, sub) z u \<longleftrightarrow> z \<in> insert 0 (set sub)" "same_block (cs, sub) z w \<longleftrightarrow> z \<in> set b" for z
    using block_zero [OF part u] block_comp(1) [OF part b] by simp_all
  show "same_block (without w cs, sub @ b) x y \<longleftrightarrow>
      same_block (cs, sub) x y \<or> same_block (cs, sub) x u \<and> same_block (cs, sub) w y \<or>
      same_block (cs, sub) x w \<and> same_block (cs, sub) u y"
  proof -
    have "(\<exists>c \<in> set cs. x \<in> set c \<and> y \<in> set c) \<longleftrightarrow>
        (\<exists>c \<in> set (without w cs). x \<in> set c \<and> y \<in> set c) \<or> x \<in> set b \<and> y \<in> set b"
      unfolding w using b(1) by blast
    moreover have "same_block (cs, sub) w y \<longleftrightarrow> y \<in> set b" "same_block (cs, sub) u y \<longleftrightarrow> y \<in> insert 0 (set sub)"
      unfolding same_block_sym [of _ _ y] by (rule x)+
    ultimately show ?thesis
      unfolding x by (simp add: same_block_def) blast
  qed
qed

lemma merge_components:
  assumes part: "partitions n (cs, sub)" and a: "a \<in> set cs" "v \<in> set a" and b: "b \<in> set cs" "w \<in> set b" and ne: "a \<noteq> b"
  shows "partitions n (without w (without v cs) @ [a @ b], sub)"
    and "same_block (without w (without v cs) @ [a @ b], sub) x y \<longleftrightarrow>
      same_block (cs, sub) x y \<or> same_block (cs, sub) x v \<and> same_block (cs, sub) w y \<or>
      same_block (cs, sub) x w \<and> same_block (cs, sub) v y"
proof -
  have p: "distinct (concat cs @ sub)" "set (concat cs @ sub) = {1..n}" "[] \<notin> set cs"
    using part by (simp_all add: partitions_def)
  have d: "distinct (concat cs)" using p(1) by simp
  have v: "set (without v cs) = set cs - {a}" by (rule without_others [OF d a])
  then have w: "set (without w (without v cs)) = set cs - {a} - {b}"
    using without_others [OF distinct_without [OF d], of b v w] b ne by auto
  have other: "z \<notin> set c" if "z \<in> set a \<union> set b" "c \<in> set cs - {a} - {b}" for z c
    using that partitions_unique [OF d a(1), of c z] partitions_unique [OF d b(1), of c z] by auto
  have "set a \<inter> set b = {}" using partitions_unique [OF d a(1) b(1)] ne by auto
  moreover have "distinct a" "distinct b" by (rule distinct_elem [OF d a(1)], rule distinct_elem [OF d b(1)])
  moreover have "distinct (concat (without w (without v cs)))" by (intro distinct_without d)
  moreover have "set (concat cs) = set (concat (without w (without v cs))) \<union> set a \<union> set b" using w a(1) b(1) by auto
  moreover have "set (concat (without w (without v cs))) \<inter> (set a \<union> set b) = {}"
  proof (rule equals0I)
    fix z assume "z \<in> set (concat (without w (without v cs))) \<inter> (set a \<union> set b)"
    then obtain c where "c \<in> set cs - {a} - {b}" "z \<in> set c" "z \<in> set a \<union> set b" unfolding set_concat w by blast
    then show False using other by blast
  qed
  moreover have "[] \<notin> set (without w (without v cs))" using p(3) unfolding w by blast
  ultimately show "partitions n (without w (without v cs) @ [a @ b], sub)"
    using p(1,2) a(2) unfolding partitions_def by (auto simp del: set_concat)
  have x: "same_block (cs, sub) z v \<longleftrightarrow> z \<in> set a" "same_block (cs, sub) z w \<longleftrightarrow> z \<in> set b" for z
    using block_comp(1) [OF part a] block_comp(1) [OF part b] by simp_all
  show "same_block (without w (without v cs) @ [a @ b], sub) x y \<longleftrightarrow>
      same_block (cs, sub) x y \<or> same_block (cs, sub) x v \<and> same_block (cs, sub) w y \<or>
      same_block (cs, sub) x w \<and> same_block (cs, sub) v y"
  proof -
    have "(\<exists>c \<in> set cs. x \<in> set c \<and> y \<in> set c) \<longleftrightarrow>
        (\<exists>c \<in> set (without w (without v cs)). x \<in> set c \<and> y \<in> set c) \<or> x \<in> set a \<and> y \<in> set a \<or> x \<in> set b \<and> y \<in> set b"
      unfolding w using a(1) b(1) by blast
    moreover have "same_block (cs, sub) w y \<longleftrightarrow> y \<in> set b" "same_block (cs, sub) v y \<longleftrightarrow> y \<in> set a"
      unfolding same_block_sym [of _ _ y] by (rule x)+
    ultimately show ?thesis
      unfolding x by (simp add: same_block_def) blast
  qed
qed

subsection \<open>Adding edges\<close>

definition side_ok :: "int \<Rightarrow> side \<Rightarrow> bool" where
  "side_ok n s \<longleftrightarrow> snd s \<or> fst s \<in> {1..n}"

lemma vertex_range: "side_ok n s \<Longrightarrow> 0 \<le> n \<Longrightarrow> vertex s \<in> {0..n}"
  by (auto simp: side_ok_def vertex_def)

text \<open>One edge merges the blocks of its ends.\<close>

lemma add_edge_blocks:
  assumes part: "partitions n (cs, sub)" and ok: "side_ok n (v, ov)" "side_ok n (w, ow)"
  shows "partitions n (add_edge ((v, ov), (w, ow)) (cs, sub)) \<and>
    (\<forall>x y. same_block (add_edge ((v, ov), (w, ow)) (cs, sub)) x y \<longleftrightarrow>
      same_block (cs, sub) x y \<or>
      same_block (cs, sub) x (vertex (v, ov)) \<and> same_block (cs, sub) (vertex (w, ow)) y \<or>
      same_block (cs, sub) x (vertex (w, ow)) \<and> same_block (cs, sub) (vertex (v, ov)) y)"
proof -
  let ?s1 = "ov \<or> v \<in> set sub" and ?s2 = "w \<in> set sub \<or> ow"
  let ?u = "vertex (v, ov)" and ?t = "vertex (w, ow)"
  have u: "?u \<in> insert 0 (set sub)" if ?s1 using that by (auto simp: vertex_def)
  have t: "?t \<in> insert 0 (set sub)" if ?s2 using that by (auto simp: vertex_def)
  have v: "?u = v \<and> comp_of v cs \<in> set cs \<and> v \<in> set (comp_of v cs)" if "\<not> ?s1"
    using that ok(1) partitions_comp [OF part, of v] by (simp add: side_ok_def vertex_def)
  have w: "?t = w \<and> comp_of w cs \<in> set cs \<and> w \<in> set (comp_of w cs)" if "\<not> ?s2"
    using that ok(2) partitions_comp [OF part, of w] by (simp add: side_ok_def vertex_def)
  consider "?s1" "?s2" | "?s1" "\<not> ?s2" | "\<not> ?s1" "?s2" | "\<not> ?s1" "\<not> ?s2" "w \<in> set (comp_of v cs)"
    | "\<not> ?s1" "\<not> ?s2" "w \<notin> set (comp_of v cs)" by blast
  then show ?thesis
  proof cases
    case 1
    have "same_block (cs, sub) y ?u \<longleftrightarrow> same_block (cs, sub) y ?t" "same_block (cs, sub) y ?t \<longleftrightarrow> y \<in> insert 0 (set sub)" for y
      using block_zero [OF part u [OF 1(1)]] block_zero [OF part t [OF 1(2)]] by simp_all
    moreover have "x \<in> insert 0 (set sub) \<Longrightarrow> y \<in> insert 0 (set sub) \<Longrightarrow> same_block (cs, sub) x y" for x y
      by (simp add: same_block_def)
    ultimately show ?thesis using 1 part by (simp add: same_block_sym [of _ ?t] same_block_sym [of _ ?u]) blast
  next
    case 2
    then show ?thesis
      using merge_into_zero [OF part _ _ u [OF 2(1)], of "comp_of w cs" w] w [OF 2(2)] by (simp add: Let_def)
  next
    case 3
    then show ?thesis
      using merge_into_zero [OF part _ _ t [OF 3(2)], of "comp_of v cs" v] v [OF 3(1)] by (simp add: Let_def) blast
  next
    case 4
    have "same_block (cs, sub) y v \<longleftrightarrow> y \<in> set (comp_of v cs)" "same_block (cs, sub) y w \<longleftrightarrow> y \<in> set (comp_of v cs)" for y
      using block_comp(1) [OF part, of "comp_of v cs"] v [OF 4(1)] 4(3) by simp_all
    moreover have "x \<in> set (comp_of v cs) \<Longrightarrow> y \<in> set (comp_of v cs) \<Longrightarrow> same_block (cs, sub) x y" for x y
      using v [OF 4(1)] by (auto simp: same_block_def)
    ultimately show ?thesis
      using 4 part v [OF 4(1)] w [OF 4(2)] by (simp add: same_block_sym [of _ v] same_block_sym [of _ w]) blast
  next
    case 5
    then have "comp_of v cs \<noteq> comp_of w cs" using w [OF 5(2)] by auto
    then show ?thesis
      using merge_components [OF part, of "comp_of v cs" v "comp_of w cs" w] v [OF 5(1)] w [OF 5(2)] 5
      by (simp add: Let_def)
  qed
qed

lemma add_edge_components:
  assumes comp: "components_of n E st" and "0 \<le> n" and ok: "side_ok n a" "side_ok n b"
  shows "components_of n (insert (vertex a, vertex b) E) (add_edge (a, b) st)"
proof -
  obtain cs sub v ov w ow where [simp]: "st = (cs, sub)" "a = (v, ov)" "b = (w, ow)" by (metis surj_pair)
  have part: "partitions n (cs, sub)" using comp by (simp add: components_of_def)
  have range: "vertex a \<in> {0..n}" "vertex b \<in> {0..n}" using vertex_range assms(2) ok by blast+
  have same: "(x, y) \<in> conn E \<longleftrightarrow> same_block st x y" if "x \<in> {0..n}" "y \<in> {0..n}" for x y
    using comp that by (simp add: components_of_def)
  note blocks = add_edge_blocks [OF part, of v ov w ow]
  have "(x, y) \<in> conn (insert (vertex a, vertex b) E) \<longleftrightarrow> same_block (add_edge (a, b) st) x y"
    if "x \<in> {0..n}" "y \<in> {0..n}" for x y
    unfolding conn_insert using same that range blocks ok by (simp del: add_edge.simps)
  then show ?thesis using blocks ok by (simp add: components_of_def del: add_edge.simps)
qed

fun add_edges :: "(side \<times> side) list \<Rightarrow> partition \<Rightarrow> partition" where
  "add_edges [] st = st"
| "add_edges (e # es) st = add_edges es (add_edge e st)"

lemma add_edges_append: "add_edges (es @ fs) st = add_edges fs (add_edges es st)"
  by (induction es arbitrary: st) simp_all

definition edge_set :: "(side \<times> side) list \<Rightarrow> (int \<times> int) set" where
  "edge_set es = (\<lambda>(a, b). (vertex a, vertex b)) ` set es"

definition edges_ok :: "int \<Rightarrow> (side \<times> side) list \<Rightarrow> bool" where
  "edges_ok n es \<longleftrightarrow> (\<forall>(a, b) \<in> set es. side_ok n a \<and> side_ok n b)"

lemma add_edges_components:
  assumes "0 \<le> n"
  shows "components_of n E st \<Longrightarrow> edges_ok n es \<Longrightarrow> components_of n (edge_set es \<union> E) (add_edges es st)"
proof (induction es arbitrary: E st)
  case Nil
  then show ?case by (simp add: edge_set_def)
next
  case (Cons e es)
  obtain a b where e: "e = (a, b)" by (cases e)
  have "components_of n (insert (vertex a, vertex b) E) (add_edge e st)"
    unfolding e by (rule add_edge_components [OF Cons.prems(1) assms]) (use Cons.prems(2) e in \<open>auto simp: edges_ok_def\<close>)
  moreover have "edges_ok n es" using Cons.prems(2) by (simp add: edges_ok_def)
  ultimately show ?case using Cons.IH [of "insert (vertex a, vertex b) E"] e by (simp add: edge_set_def)
qed

text \<open>The start: every relation is a component of its own.\<close>

definition singletons :: "nat \<Rightarrow> partition" where
  "singletons n = (map (\<lambda>i. [int i]) [1..<Suc n], [])"

lemma components_of_singletons: "components_of (int n) {} (singletons n)"
proof -
  have cat: "concat (map (\<lambda>i. [int i]) xs) = map int xs" for xs by (induction xs) auto
  have set: "int ` {Suc 0..<Suc n} = {1..int n}"
    by (simp only: image_int_atLeastLessThan) auto
  have "partitions (int n) (singletons n)"
    unfolding partitions_def singletons_def fst_conv snd_conv append_Nil2 cat
    using set by (auto simp: distinct_map simp del: upt_Suc)
  moreover have "same_block (singletons n) x y \<longleftrightarrow> x = y" if "x \<in> {0..int n}" "y \<in> {0..int n}" for x y
    using that by (auto simp: same_block_def singletons_def intro!: bexI [of _ "nat x"] simp del: upt_Suc)
  ultimately show ?thesis by (simp add: components_of_def conn_def)
qed

lemma add_edges_singletons:
  assumes "edges_ok (int n) es"
  shows "components_of (int n) (edge_set es) (add_edges es (singletons n))"
  using add_edges_components [OF _ components_of_singletons assms] by simp

end
