(* ===== verification/Exist_Components.thy ===== *)
theory Exist_Components
  imports Exist_Optimize Join_Graph Pg_List_Update
begin

section \<open>The components on the heap\<close>

text \<open>
  The first half of \<open>exist_optimize.c\<close> implements the abstract partition of \<open>Join_Graph\<close>. A component
  is an integer list of its own on the heap; the outer list holds their addresses and one more list
  the relations connected to an outer query. All lists occupy disjoint memory. Joining concatenates in
  place, so the cells of the second list become cells of the first, and a fresh outer list without
  the joined components replaces the old one. The last part says which conditions give which edges.
\<close>

type_synonym comp = "nat \<times> int list \<times> nat set"

abbreviation elems :: "comp \<Rightarrow> int set" where
  "elems t \<equiv> set (fst (snd t))"

abbreviation area :: "comp \<Rightarrow> nat set" where
  "area t \<equiv> snd (snd t)"

definition comp_at :: "emem \<Rightarrow> comp \<Rightarrow> bool" where
  "comp_at m t \<longleftrightarrow> owns m (fst t) T_IntList (map IntV (fst (snd t))) (area t) \<and> fst (snd t) \<noteq> []"

lemma owns_member_int:
  assumes "mem_ok m" and "owns m l tag (map IntV is) F"
  shows "list_member_int m l i = Inr (i \<in> set is)"
proof -
  obtain cs where "list_rep m l tag cs" "map snd cs = map IntV is" using assms(2) by (auto simp: owns_def)
  then show ?thesis by (rule list_member_int_rep [OF assms(1)])
qed

lemma comp_at_frame:
  "comp_at m t \<Longrightarrow> mem_ok m \<Longrightarrow> agree A m m' \<Longrightarrow> area t \<inter> A = {} \<Longrightarrow> comp_at m' t"
  using owns_frame [of m "fst t" T_IntList _ "area t" A m'] by (simp add: comp_at_def)

lemma comp_at_ptr:
  assumes "comp_at m t"
  shows "fst t \<noteq> 0 \<and> fst t \<in> area t"
proof -
  obtain cs where cs: "list_rep m (fst t) T_IntList cs" "map snd cs = map IntV (fst (snd t))" "area t = footprint (fst t) cs"
    using assms unfolding comp_at_def owns_def by (elim conjE exE)
  have "fst t \<noteq> 0" using assms cs(1,2) by (cases "fst t = 0") (auto simp: comp_at_def)
  then show ?thesis using cs(3) by (simp add: footprint_def)
qed

lemma comp_at_below: "comp_at m t \<Longrightarrow> mem_ok m \<Longrightarrow> area t \<subseteq> {a. a < brk m}"
  using owns_below [of m "fst t" T_IntList "map IntV (fst (snd t))" "area t"] by (simp add: comp_at_def)

lemma comp_at_member: "mem_ok m \<Longrightarrow> comp_at m t \<Longrightarrow> list_member_int m (fst t) i = Inr (i \<in> elems t)"
  using owns_member_int [of m "fst t" T_IntList "fst (snd t)" "area t"] by (simp add: comp_at_def)

text \<open>The address, values and memory of every component, and of the two other lists.\<close>

definition holds :: "emem \<Rightarrow> nat \<Rightarrow> nat \<Rightarrow> comp list \<Rightarrow> int list \<Rightarrow> nat set \<Rightarrow> nat set \<Rightarrow> bool" where
  "holds m l sub ts s Fl Fs \<longleftrightarrow>
     mem_ok m \<and> owns m l T_List (map (\<lambda>t. Ptr (fst t)) ts) Fl \<and> owns m sub T_IntList (map IntV s) Fs \<and>
     Fl \<inter> Fs = {} \<and>
     (\<forall>t \<in> set ts. comp_at m t \<and> area t \<inter> Fl = {} \<and> area t \<inter> Fs = {}) \<and>
     (\<forall>t \<in> set ts. \<forall>u \<in> set ts. t \<noteq> u \<longrightarrow> area t \<inter> area u = {} \<and> elems t \<inter> elems u = {})"

definition represents :: "context_exists \<Rightarrow> partition \<Rightarrow> bool" where
  "represents ctx st \<longleftrightarrow>
     (\<exists>ts Fl Fs. holds (emem ctx) (list_composantes_connexes ctx) (composante_connexe_sub_level ctx) ts (snd st) Fl Fs \<and>
                 map (\<lambda>t. fst (snd t)) ts = fst st)"

lemma is_sub_holds:
  assumes "holds m (list_composantes_connexes ctx) (composante_connexe_sub_level ctx) ts s Fl Fs" and "emem ctx = m"
  shows "is_sub v ctx = Inr (v \<in> set s)"
  using assms owns_member_int [of m "composante_connexe_sub_level ctx" T_IntList s Fs] by (simp add: holds_def is_sub_def)

subsection \<open>Looking up a component\<close>

lemma find_compo_chain:
  assumes "mem_ok m" and "\<forall>t \<in> set ts. comp_at m t"
  shows "chain m p cs \<Longrightarrow> map snd cs = map (\<lambda>t. Ptr (fst t)) ts \<Longrightarrow> length cs < fuel \<Longrightarrow>
    find_compo fuel m v p = Inr (map_option fst (find (\<lambda>t. v \<in> elems t) ts))"
  using assms(2)
proof (induction cs arbitrary: p ts fuel)
  case Nil
  then show ?case by (cases fuel) auto
next
  case (Cons c cs)
  obtain a d where c: "c = (a, d)" by (cases c)
  obtain t us where t: "ts = t # us" "d = Ptr (fst t)" "map snd cs = map (\<lambda>t. Ptr (fst t)) us"
    using Cons.prems(2) c by (cases ts) auto
  obtain f where f: "fuel = Suc f" "length cs < f" using Cons.prems(3) by (cases fuel) auto
  obtain n where n: "p = a" "a \<noteq> 0" "heap m a = Some (ListCell \<lparr>cdata = d, cnext = n\<rparr>)" "chain m n cs"
    using Cons.prems(1) c by auto
  have "find_compo f m v n = Inr (map_option fst (find (\<lambda>t. v \<in> elems t) us))"
    by (rule Cons.IH [OF n(4) t(3) f(2)]) (use Cons.prems(4) t in simp)
  moreover have "list_member_int m (fst t) v = Inr (v \<in> elems t)"
    using comp_at_member [OF assms(1)] Cons.prems(4) t by simp
  ultimately show ?case using t(1,2) f(1) n by (simp add: load_cell_def)
qed

lemma return_list_holds:
  assumes "holds m (list_composantes_connexes ctx) (composante_connexe_sub_level ctx) ts s Fl Fs" and "emem ctx = m"
    and "t \<in> set ts" and "v \<in> elems t"
  shows "return_list v ctx = Inr (fst t)"
proof -
  obtain cs where cs: "list_rep m (list_composantes_connexes ctx) T_List cs" "map snd cs = map (\<lambda>t. Ptr (fst t)) ts"
    using assms(1) by (auto simp: holds_def owns_def)
  have ok: "mem_ok m" and at: "\<forall>t \<in> set ts. comp_at m t" using assms(1) by (auto simp: holds_def)
  have "find (\<lambda>t. v \<in> elems t) ts = Some t"
  proof -
    have "find (\<lambda>t. v \<in> elems t) ts \<noteq> None" unfolding find_None_iff using assms(3,4) by blast
    then obtain u where u: "find (\<lambda>t. v \<in> elems t) ts = Some u" by auto
    then have "u \<in> set ts" "v \<in> elems u" by (auto simp: find_Some_iff)
    then have "u = t" using assms(1,3,4) unfolding holds_def by blast
    then show ?thesis using u by simp
  qed
  then show ?thesis
    using list_head_rep [OF cs(1)] find_compo_chain [OF ok at list_rep_chain [OF cs(1)] cs(2)
        chain_length_fuel [OF ok list_rep_chain [OF cs(1)]], of v] assms(2)
    by (simp add: return_list_def)
qed

subsection \<open>Removing a component\<close>

lemma remove_from_list_fresh:
  assumes ok: "mem_ok m" and l: "owns m l T_List (map (\<lambda>t. Ptr (fst t)) ts) Fl" and at: "\<forall>t \<in> set ts. comp_at m t"
    and ctx: "emem ctx = m" "list_composantes_connexes ctx = l"
  shows "\<exists>l' m' Fl'. remove_from_list v ctx = Inr (ctx\<lparr>emem := m', list_composantes_connexes := l'\<rparr>) \<and> mem_ok m' \<and>
     agree {} m m' \<and> owns m' l' T_List (map (\<lambda>t. Ptr (fst t)) (filter (\<lambda>t. v \<notin> elems t) ts)) Fl' \<and> Fl' \<subseteq> {a. brk m \<le> a}"
proof -
  define none where "none = ([] :: cells)"
  define K where "K d \<longleftrightarrow> (\<exists>p. d = Ptr p \<and> list_member_int m p v = Inr False)" for d
  obtain cs where cs: "list_rep m l T_List cs" "map snd cs = map (\<lambda>t. Ptr (fst t)) ts"
    using l by (auto simp: owns_def)
  have K: "K (Ptr (fst t)) \<longleftrightarrow> v \<notin> elems t" if "t \<in> set ts" for t
    using comp_at_member [OF ok, of t v] at that by (simp add: K_def)
  have keep: "not_containing v m' res' d = Inr (K d)"
    if "mem_ok m'" "agree (footprint 0 none) m m'" and d: "d \<in> snd ` set cs" for m' res' d
  proof -
    obtain t where t: "t \<in> set ts" "d = Ptr (fst t)"
      using d arg_cong [OF cs(2), of set] by auto
    have "comp_at m' t" using comp_at_frame [OF _ ok that(2)] at t(1) by simp
    then show ?thesis
      using comp_at_member [OF that(1), of t v] K [OF t(1)] t(2) by (simp add: not_containing_def)
  qed
  have "yields m (footprint 0 none) T_List (collected (\<lambda>_. K) (map snd none) (map snd cs))
          (collect (not_containing v) T_List m 0 l)"
    by (rule collect_yields [OF ok _ cs(1)]) (use keep in \<open>simp_all add: none_def\<close>)
  moreover have "filter K (map (\<lambda>t. Ptr (fst t)) ts) = map (\<lambda>t. Ptr (fst t)) (filter (\<lambda>t. v \<notin> elems t) ts)"
    using K by (induction ts) auto
  ultimately have "yields m {} T_List (map (\<lambda>t. Ptr (fst t)) (filter (\<lambda>t. v \<notin> elems t) ts))
      (collect (not_containing v) T_List m 0 l)"
    by (simp add: collected_filter cs(2) none_def)
  then show ?thesis unfolding yields_def using ctx by (fastforce simp: remove_from_list_def)
qed

subsection \<open>Joining\<close>

lemma list_concat_owns:
  assumes ok: "mem_ok m" and l1: "owns m l1 tag vs F" and l2: "owns m l2 tag ws G" and "l2 \<noteq> 0" and "F \<inter> G = {}"
  shows "\<exists>l' m' F'. list_concat m l1 l2 = Inr (l', m') \<and> mem_ok m' \<and> agree F m m' \<and> brk m' = brk m \<and>
     owns m' l' tag (vs @ ws) F' \<and> F' \<subseteq> F \<union> G \<and> owns m' l2 tag ws G \<and> (l1 \<noteq> 0 \<longrightarrow> l' = l1)"
proof (cases "l1 = 0")
  case True
  then show ?thesis using assms by (auto simp: list_concat_def)
next
  case False
  obtain cs where cs: "list_rep m l1 tag cs" "map snd cs = vs" "F = footprint l1 cs"
    using l1 by (auto simp: owns_def)
  obtain ds where ds: "list_rep m l2 tag ds" "map snd ds = ws" "G = footprint l2 ds"
    using l2 by (auto simp: owns_def)
  have ne: "l1 \<noteq> l2" "addrs cs \<inter> addrs ds = {}" "cs \<noteq> []"
    using False assms(4,5) cs ds by (auto simp: footprint_def list_rep_def)
  obtain m' where m': "list_concat m l1 l2 = Inr (l1, m')" "mem_ok m'" "agree {l1, fst (last cs)} m m'"
    "brk m' = brk m" "list_rep m' l1 tag (cs @ ds)" "list_rep m' l2 tag ds"
    using list_concat_rep [OF ok cs(1) ds(1) False assms(4) ne(1,2)] by blast
  have sub: "{l1, fst (last cs)} \<subseteq> F" using False ne(3) cs(3) by (simp add: footprint_def)
  have "owns m' l1 tag (vs @ ws) (footprint l1 (cs @ ds))" "owns m' l2 tag ws G"
    using m'(5,6) cs ds by (auto simp: owns_def)
  moreover have "footprint l1 (cs @ ds) \<subseteq> F \<union> G"
    using cs(3) ds(3) assms(4) by (auto simp: footprint_def)
  ultimately show ?thesis using m'(1,2,4) agree_mono [OF m'(3) sub] by blast
qed

text \<open>The components without those that contain a relation, and a list that lies elsewhere.\<close>

lemma holdsI:
  assumes "mem_ok m" and "owns m l T_List (map (\<lambda>t. Ptr (fst t)) ts) Fl" and "owns m sub T_IntList (map IntV s) Fs"
    and "Fl \<inter> Fs = {}" and "\<And>t. t \<in> set ts \<Longrightarrow> comp_at m t \<and> area t \<inter> Fl = {} \<and> area t \<inter> Fs = {}"
    and "\<And>t u. t \<in> set ts \<Longrightarrow> u \<in> set ts \<Longrightarrow> t \<noteq> u \<Longrightarrow> area t \<inter> area u = {} \<and> elems t \<inter> elems u = {}"
  shows "holds m l sub ts s Fl Fs"
  using assms by (simp add: holds_def)

lemma holdsD:
  assumes "holds m l sub ts s Fl Fs"
  shows "mem_ok m" "owns m l T_List (map (\<lambda>t. Ptr (fst t)) ts) Fl" "owns m sub T_IntList (map IntV s) Fs" "Fl \<inter> Fs = {}"
    "\<forall>t \<in> set ts. comp_at m t" "t \<in> set ts \<Longrightarrow> area t \<inter> Fl = {} \<and> area t \<inter> Fs = {}"
    "t \<in> set ts \<Longrightarrow> u \<in> set ts \<Longrightarrow> t \<noteq> u \<Longrightarrow> area t \<inter> area u = {} \<and> elems t \<inter> elems u = {}"
  using assms by (simp_all add: holds_def)

lemma fresh_disjoint: "F \<subseteq> {a. a < (b :: nat)} \<Longrightarrow> G \<subseteq> {a. b \<le> a} \<Longrightarrow> F \<inter> G = {}"
  by fastforce

lemma remove_from_list_holds:
  assumes H: "holds (emem ctx) (list_composantes_connexes ctx) (composante_connexe_sub_level ctx) ts s Fl Fs"
  shows "\<exists>l' m' Fl'. remove_from_list v ctx = Inr (ctx\<lparr>emem := m', list_composantes_connexes := l'\<rparr>) \<and>
     agree {} (emem ctx) m' \<and> Fl' \<subseteq> {a. brk (emem ctx) \<le> a} \<and>
     holds m' l' (composante_connexe_sub_level ctx) (filter (\<lambda>t. v \<notin> elems t) ts) s Fl' Fs"
proof -
  obtain l' m' Fl' where r: "remove_from_list v ctx = Inr (ctx\<lparr>emem := m', list_composantes_connexes := l'\<rparr>)"
    "mem_ok m'" "agree {} (emem ctx) m'" "Fl' \<subseteq> {a. brk (emem ctx) \<le> a}"
    "owns m' l' T_List (map (\<lambda>t. Ptr (fst t)) (filter (\<lambda>t. v \<notin> elems t) ts)) Fl'"
    using remove_from_list_fresh [OF holdsD(1,2,5) [OF H] refl refl, of v] by blast
  have "holds m' l' (composante_connexe_sub_level ctx) (filter (\<lambda>t. v \<notin> elems t) ts) s Fl' Fs"
  proof (rule holdsI [OF r(2,5)])
    show "owns m' (composante_connexe_sub_level ctx) T_IntList (map IntV s) Fs"
      using owns_frame [OF holdsD(3,1) [OF H] r(3)] by simp
    show "Fl' \<inter> Fs = {}"
      using fresh_disjoint [OF owns_below [OF holdsD(3,1) [OF H]] r(4)] by blast
    fix t assume t: "t \<in> set (filter (\<lambda>t. v \<notin> elems t) ts)"
    then have at: "comp_at (emem ctx) t" using holdsD(5) [OF H] by simp
    show "comp_at m' t \<and> area t \<inter> Fl' = {} \<and> area t \<inter> Fs = {}"
      using comp_at_frame [OF at holdsD(1) [OF H] r(3)] holdsD(6) [OF H, of t] t
        fresh_disjoint [OF comp_at_below [OF at holdsD(1) [OF H]] r(4)] by simp
  next
    fix t u assume "t \<in> set (filter (\<lambda>t. v \<notin> elems t) ts)" "u \<in> set (filter (\<lambda>t. v \<notin> elems t) ts)" "t \<noteq> u"
    then show "area t \<inter> area u = {} \<and> elems t \<inter> elems u = {}" using holdsD(7) [OF H, of t u] by simp
  qed
  with r(1,3,4) show ?thesis by blast
qed

text \<open>
  Two concatenations. The component that joins the outer relations is still listed during the
  concatenation, and its list is read once more when it is removed.
\<close>

lemma join_sub_level_holds:
  assumes H: "holds (emem ctx) (list_composantes_connexes ctx) (composante_connexe_sub_level ctx) ts s Fl Fs"
    and t: "t \<in> set ts" "v \<in> elems t"
  shows "\<exists>ctx' Fl' Fs'. join_sub_level v ctx = Inr ctx' \<and>
     holds (emem ctx') (list_composantes_connexes ctx') (composante_connexe_sub_level ctx')
       (filter (\<lambda>t. v \<notin> elems t) ts) (s @ fst (snd t)) Fl' Fs'"
proof -
  note ok = holdsD(1) [OF H] and at = bspec [OF holdsD(5) [OF H] t(1)]
  have l2: "owns (emem ctx) (fst t) T_IntList (map IntV (fst (snd t))) (area t)" using at by (simp add: comp_at_def)
  have sep: "Fs \<inter> area t = {}" using holdsD(6) [OF H t(1)] by blast
  obtain l m F where c: "list_concat (emem ctx) (composante_connexe_sub_level ctx) (fst t) = Inr (l, m)" "mem_ok m"
    "agree Fs (emem ctx) m" "owns m l T_IntList (map IntV s @ map IntV (fst (snd t))) F" "F \<subseteq> Fs \<union> area t"
    "owns m (fst t) T_IntList (map IntV (fst (snd t))) (area t)"
    using list_concat_owns [OF ok holdsD(3) [OF H] l2 _ sep] comp_at_ptr [OF at] by blast
  define ctx1 where "ctx1 = ctx\<lparr>emem := m, composante_connexe_sub_level := l\<rparr>"
  have at1: "\<forall>u \<in> set ts. comp_at m u"
    using comp_at_frame [OF _ ok c(3)] holdsD(5,6) [OF H] by blast
  have outer: "owns m (list_composantes_connexes ctx) T_List (map (\<lambda>t. Ptr (fst t)) ts) Fl"
    using owns_frame [OF holdsD(2) [OF H] ok c(3) holdsD(4) [OF H]] .
  obtain l' m' Fl' where r: "remove_from_list v ctx1 = Inr (ctx1\<lparr>emem := m', list_composantes_connexes := l'\<rparr>)"
    "mem_ok m'" "agree {} m m'" "Fl' \<subseteq> {a. brk m \<le> a}"
    "owns m' l' T_List (map (\<lambda>t. Ptr (fst t)) (filter (\<lambda>t. v \<notin> elems t) ts)) Fl'"
    using remove_from_list_fresh [OF c(2) outer at1, of ctx1 v] by (auto simp: ctx1_def)
  have "holds m' l' l (filter (\<lambda>t. v \<notin> elems t) ts) (s @ fst (snd t)) Fl' F"
  proof (rule holdsI [OF r(2,5)])
    show "owns m' l T_IntList (map IntV (s @ fst (snd t))) F"
      using owns_frame [OF c(4,2) r(3)] by simp
    show "Fl' \<inter> F = {}" using fresh_disjoint [OF owns_below [OF c(4,2)] r(4)] by blast
    fix u assume u: "u \<in> set (filter (\<lambda>t. v \<notin> elems t) ts)"
    then have at': "comp_at m u" and "u \<noteq> t" using at1 t(2) by auto
    then have "area u \<inter> (Fs \<union> area t) = {}"
      using holdsD(6) [OF H, of u] holdsD(7) [OF H _ t(1), of u] u by (simp add: Int_Un_distrib)
    then have "area u \<inter> F = {}" using c(5) by blast
    then show "comp_at m' u \<and> area u \<inter> Fl' = {} \<and> area u \<inter> F = {}"
      using comp_at_frame [OF at' c(2) r(3)] fresh_disjoint [OF comp_at_below [OF at' c(2)] r(4)] by simp
  next
    fix u w assume "u \<in> set (filter (\<lambda>t. v \<notin> elems t) ts)" "w \<in> set (filter (\<lambda>t. v \<notin> elems t) ts)" "u \<noteq> w"
    then show "area u \<inter> area w = {} \<and> elems u \<inter> elems w = {}" using holdsD(7) [OF H, of u w] by simp
  qed
  moreover have "join_sub_level v ctx = Inr (ctx1\<lparr>emem := m', list_composantes_connexes := l'\<rparr>)"
    using return_list_holds [OF H refl t] c(1) r(1) by (simp add: join_sub_level_def ctx1_def)
  ultimately show ?thesis by (auto simp: ctx1_def)
qed

lemma holds_add:
  assumes H: "holds m l sub ts s Fl Fs" and t: "comp_at m t" "area t \<inter> Fl = {}" "area t \<inter> Fs = {}"
    and sep: "\<And>u. u \<in> set ts \<Longrightarrow> area u \<inter> area t = {} \<and> elems u \<inter> elems t = {}"
  shows "\<exists>l' m' Fl'. lappend m l (fst t) = Inr (l', m') \<and> holds m' l' sub (ts @ [t]) s Fl' Fs"
proof -
  note ok = holdsD(1) [OF H]
  obtain cs where cs: "list_rep m l T_List cs" "map snd cs = map (\<lambda>t. Ptr (fst t)) ts" "Fl = footprint l cs"
    using holdsD(2) [OF H] unfolding owns_def by (elim conjE exE)
  obtain l' m' ds where r: "lappend m l (fst t) = Inr (l', m')" "mem_ok m'" "agree Fl m m'" "list_rep m' l' T_List ds"
    "map snd ds = map snd cs @ [Ptr (fst t)]" "footprint l' ds \<subseteq> Fl \<union> {a. brk m \<le> a}"
    using lappend_with_yields [OF ok cs(1), of "Ptr (fst t)"] unfolding cs(3) lappend_def by (rule yieldsE)
  have off: "A \<inter> footprint l' ds = {}" if "A \<inter> Fl = {}" "A \<subseteq> {a. a < brk m}" for A
    using that r(6) fresh_disjoint [of A "brk m" "{a. brk m \<le> a}"] by blast
  have "holds m' l' sub (ts @ [t]) s (footprint l' ds) Fs"
  proof (rule holdsI [OF r(2)])
    show "owns m' l' T_List (map (\<lambda>t. Ptr (fst t)) (ts @ [t])) (footprint l' ds)"
      using r(4,5) cs(2) by (auto simp: owns_def)
    have d: "Fs \<inter> Fl = {}" using holdsD(4) [OF H] by blast
    show "owns m' sub T_IntList (map IntV s) Fs" using owns_frame [OF holdsD(3) [OF H] ok r(3) d] .
    show "footprint l' ds \<inter> Fs = {}" using off [OF d owns_below [OF holdsD(3) [OF H] ok]] by blast
    fix u assume "u \<in> set (ts @ [t])"
    then have u: "comp_at m u" "area u \<inter> Fl = {}" "area u \<inter> Fs = {}"
      using t holdsD(5) [OF H] holdsD(6) [OF H, of u] by auto
    show "comp_at m' u \<and> area u \<inter> footprint l' ds = {} \<and> area u \<inter> Fs = {}"
      using comp_at_frame [OF u(1) ok r(3) u(2)] off [OF u(2) comp_at_below [OF u(1) ok]] u(3) by simp
  next
    fix u w assume "u \<in> set (ts @ [t])" "w \<in> set (ts @ [t])" "u \<noteq> w"
    then consider "u \<in> set ts" "w \<in> set ts" | "u \<in> set ts" "w = t" | "u = t" "w \<in> set ts" by auto
    then show "area u \<inter> area w = {} \<and> elems u \<inter> elems w = {}"
    proof cases
      case 1 then show ?thesis using holdsD(7) [OF H 1 \<open>u \<noteq> w\<close>] by simp
    next
      case 2 then show ?thesis using sep [OF 2(1)] by simp
    next
      case 3 then show ?thesis using sep [OF 3(2)] by blast
    qed
  qed
  with r(1) show ?thesis by blast
qed

lemma holds_frame:
  assumes H: "holds m l sub ts s Fl Fs" and a: "agree A m m'" "mem_ok m'" and "Fl \<inter> A = {}" "Fs \<inter> A = {}"
    and "\<And>t. t \<in> set ts \<Longrightarrow> area t \<inter> A = {}"
  shows "holds m' l sub ts s Fl Fs"
  using H owns_frame [OF holdsD(2,1) [OF H] a(1) assms(4)] owns_frame [OF holdsD(3,1) [OF H] a(1) assms(5)]
    comp_at_frame [OF _ holdsD(1) [OF H] a(1) assms(6)] a(2)
  by (simp add: holds_def)

text \<open>Joining two components that are no longer listed.\<close>

lemma concat_comps:
  assumes H: "holds m l sub ts s Fl Fs" and t: "comp_at m t" and u: "comp_at m u" and sep: "area t \<inter> area u = {}"
    and off: "(area t \<union> area u) \<inter> (Fl \<union> Fs) = {}"
    and others: "\<And>x. x \<in> set ts \<Longrightarrow> area x \<inter> (area t \<union> area u) = {} \<and> elems x \<inter> (elems t \<union> elems u) = {}"
  shows "\<exists>m1 l' m2 F Fl'. list_concat m (fst t) (fst u) = Inr (fst t, m1) \<and> lappend m1 l (fst t) = Inr (l', m2) \<and>
     holds m2 l' sub (ts @ [(fst t, fst (snd t) @ fst (snd u), F)]) s Fl' Fs"
proof -
  note ok = holdsD(1) [OF H] and ptrs = comp_at_ptr [OF t] comp_at_ptr [OF u]
  have l1: "owns m (fst t) T_IntList (map IntV (fst (snd t))) (area t)"
    and l2: "owns m (fst u) T_IntList (map IntV (fst (snd u))) (area u)" using t u by (simp_all add: comp_at_def)
  obtain m1 F where c: "list_concat m (fst t) (fst u) = Inr (fst t, m1)" "mem_ok m1" "agree (area t) m m1"
    "owns m1 (fst t) T_IntList (map IntV (fst (snd t)) @ map IntV (fst (snd u))) F" "F \<subseteq> area t \<union> area u"
    using list_concat_owns [OF ok l1 l2 conjunct1 [OF ptrs(2)] sep] ptrs(1) by auto
  have H1: "holds m1 l sub ts s Fl Fs"
    by (rule holds_frame [OF H c(3,2)]) (use off others in blast)+
  let ?new = "(fst t, fst (snd t) @ fst (snd u), F)"
  have new: "comp_at m1 ?new" using c(4) t by (simp add: comp_at_def)
  have "area ?new \<inter> Fl = {}" "area ?new \<inter> Fs = {}" using off c(5) by auto
  moreover have "area x \<inter> area ?new = {} \<and> elems x \<inter> elems ?new = {}" if "x \<in> set ts" for x
    using others [OF that] c(5) by auto
  ultimately obtain l' m2 Fl' where a: "lappend m1 l (fst ?new) = Inr (l', m2)" "holds m2 l' sub (ts @ [?new]) s Fl' Fs"
    using holds_add [OF H1 new] by metis
  have "lappend m1 l (fst t) = Inr (l', m2)" using a(1) by simp
  with c(1) a(2) show ?thesis by blast
qed

text \<open>Removing two components: the new outer list is fresh.\<close>

lemma remove_two_holds:
  assumes H: "holds (emem ctx) (list_composantes_connexes ctx) (composante_connexe_sub_level ctx) ts s Fl Fs"
  shows "\<exists>l m F. bnd (remove_from_list w ctx) (remove_from_list v) = Inr (ctx\<lparr>emem := m, list_composantes_connexes := l\<rparr>) \<and>
     agree {} (emem ctx) m \<and> F \<subseteq> {a. brk (emem ctx) \<le> a} \<and>
     holds m l (composante_connexe_sub_level ctx) (filter (\<lambda>t. v \<notin> elems t) (filter (\<lambda>t. w \<notin> elems t) ts)) s F Fs"
proof -
  obtain l1 m1 F1 where r1: "remove_from_list w ctx = Inr (ctx\<lparr>emem := m1, list_composantes_connexes := l1\<rparr>)"
    "agree {} (emem ctx) m1"
    "holds m1 l1 (composante_connexe_sub_level ctx) (filter (\<lambda>t. w \<notin> elems t) ts) s F1 Fs"
    using remove_from_list_holds [OF H, of w] by blast
  define ctx1 where "ctx1 = ctx\<lparr>emem := m1, list_composantes_connexes := l1\<rparr>"
  have H1: "holds (emem ctx1) (list_composantes_connexes ctx1) (composante_connexe_sub_level ctx1)
      (filter (\<lambda>t. w \<notin> elems t) ts) s F1 Fs" using r1(3) by (simp add: ctx1_def)
  obtain l m F where r: "remove_from_list v ctx1 = Inr (ctx1\<lparr>emem := m, list_composantes_connexes := l\<rparr>)"
    "agree {} (emem ctx1) m" "F \<subseteq> {a. brk (emem ctx1) \<le> a}"
    "holds m l (composante_connexe_sub_level ctx1) (filter (\<lambda>t. v \<notin> elems t) (filter (\<lambda>t. w \<notin> elems t) ts)) s F Fs"
    using remove_from_list_holds [OF H1, of v] by blast
  have "bnd (remove_from_list w ctx) (remove_from_list v) = Inr (ctx\<lparr>emem := m, list_composantes_connexes := l\<rparr>)"
    using r1(1) r(1) by (simp add: ctx1_def)
  moreover have "agree {} (emem ctx) m" using agree_trans [OF r1(2)] r(2) by (simp add: ctx1_def)
  moreover have "F \<subseteq> {a. brk (emem ctx) \<le> a}" using r(3) r1(2) by (auto simp: agree_def ctx1_def)
  moreover have "holds m l (composante_connexe_sub_level ctx)
      (filter (\<lambda>t. v \<notin> elems t) (filter (\<lambda>t. w \<notin> elems t) ts)) s F Fs"
    using r(4) by (simp add: ctx1_def)
  ultimately show ?thesis by blast
qed

lemma join_components_holds:
  assumes H: "holds (emem ctx) (list_composantes_connexes ctx) (composante_connexe_sub_level ctx) ts s Fl Fs"
    and t: "t \<in> set ts" "varno_en_cours ctx \<in> elems t" and u: "u \<in> set ts" "v \<in> elems u" and ne: "t \<noteq> u"
  shows "\<exists>ctx' Fl' F. join_components v ctx = Inr ctx' \<and>
     holds (emem ctx') (list_composantes_connexes ctx') (composante_connexe_sub_level ctx')
       (filter (\<lambda>t. v \<notin> elems t) (filter (\<lambda>t. varno_en_cours ctx \<notin> elems t) ts) @
          [(fst t, fst (snd t) @ fst (snd u), F)]) s Fl' Fs"
proof -
  let ?w = "varno_en_cours ctx"
  let ?rest = "filter (\<lambda>t. v \<notin> elems t) (filter (\<lambda>t. ?w \<notin> elems t) ts)"
  note ok = holdsD(1) [OF H] and at = bspec [OF holdsD(5) [OF H] t(1)] and au = bspec [OF holdsD(5) [OF H] u(1)]
  obtain l m F where r: "bnd (remove_from_list ?w ctx) (remove_from_list v) = Inr (ctx\<lparr>emem := m, list_composantes_connexes := l\<rparr>)"
    "agree {} (emem ctx) m" "F \<subseteq> {a. brk (emem ctx) \<le> a}" "holds m l (composante_connexe_sub_level ctx) ?rest s F Fs"
    using remove_two_holds [OF H, of ?w v] by blast
  have at2: "comp_at m t" "comp_at m u" using comp_at_frame [OF at ok r(2)] comp_at_frame [OF au ok r(2)] by simp_all
  have sep: "area t \<inter> area u = {}" using holdsD(7) [OF H t(1) u(1) ne] by simp
  have off: "(area t \<union> area u) \<inter> (F \<union> Fs) = {}"
    using fresh_disjoint [OF comp_at_below [OF at ok] r(3)] fresh_disjoint [OF comp_at_below [OF au ok] r(3)]
      holdsD(6) [OF H t(1)] holdsD(6) [OF H u(1)] by (simp add: Int_Un_distrib Int_Un_distrib2)
  have others: "area x \<inter> (area t \<union> area u) = {} \<and> elems x \<inter> (elems t \<union> elems u) = {}" if "x \<in> set ?rest" for x
  proof -
    have "x \<in> set ts" "x \<noteq> t" "x \<noteq> u" using that t(2) u(2) by auto
    then show ?thesis
      using holdsD(7) [OF H _ t(1), of x] holdsD(7) [OF H _ u(1), of x] by (simp add: Int_Un_distrib)
  qed
  obtain m1 l' m2 G Fl' where c: "list_concat m (fst t) (fst u) = Inr (fst t, m1)" "lappend m1 l (fst t) = Inr (l', m2)"
     "holds m2 l' (composante_connexe_sub_level ctx) (?rest @ [(fst t, fst (snd t) @ fst (snd u), G)]) s Fl' Fs"
    using concat_comps [OF r(4) at2 sep off others] by blast
  obtain ctx1 where r': "remove_from_list ?w ctx = Inr ctx1" "remove_from_list v ctx1 = Inr (ctx\<lparr>emem := m, list_composantes_connexes := l\<rparr>)"
    using r(1) by (rule bnd_eq_InrE)
  have "fst t \<noteq> fst u" using comp_at_ptr [OF at] comp_at_ptr [OF au] sep by (metis disjoint_iff)
  then have "join_components v ctx = Inr (ctx\<lparr>emem := m2, list_composantes_connexes := l'\<rparr>)"
    using return_list_holds [OF H refl t] return_list_holds [OF H refl u] r' c(1,2)
    by (simp add: join_components_def)
  with c(3) show ?thesis by auto
qed

subsection \<open>Two variables of a comparison\<close>

definition side_of :: "pg_var \<Rightarrow> side" where
  "side_of v = (int (varno v), 0 < varlevelsup v)"

definition var_ok :: "int \<Rightarrow> pg_var \<Rightarrow> bool" where
  "var_ok n v \<longleftrightarrow> varno v < 2 ^ 31 \<and> side_ok n (side_of v)"

abbreviation contents :: "comp list \<Rightarrow> int list list" where
  "contents ts \<equiv> map (\<lambda>t. fst (snd t)) ts"

lemma without_contents: "without v (contents ts) = contents (filter (\<lambda>t. v \<notin> elems t) ts)"
  by (induction ts) (simp_all add: without_def)

lemma comp_of_contents:
  assumes H: "holds m l sub ts s Fl Fs" and t: "t \<in> set ts" "v \<in> elems t"
  shows "comp_of v (contents ts) = fst (snd t)"
proof -
  have "find (\<lambda>c. v \<in> set c) (contents ts) \<noteq> None" unfolding find_None_iff using t by auto
  then obtain c where c: "find (\<lambda>c. v \<in> set c) (contents ts) = Some c" by auto
  then have "c \<in> set (contents ts)" "v \<in> set c" by (auto simp: find_Some_iff)
  then obtain u where u: "u \<in> set ts" "c = fst (snd u)" "v \<in> elems u" by auto
  have "u = t" using holdsD(7) [OF H u(1) t(1)] u(3) t(2) by (cases "u = t") auto
  then show ?thesis using c u(2) by (simp add: comp_of_def)
qed

lemma listed:
  assumes "partitions n (contents ts, s)" and "v \<in> {1..n}" and "v \<notin> set s"
  shows "\<exists>t \<in> set ts. v \<in> elems t"
proof -
  obtain t where "t \<in> set ts" "comp_of v (contents ts) = fst (snd t)"
    using partitions_comp(1) [OF assms] by auto
  then show ?thesis using partitions_comp(2) [OF assms] by (intro bexI [of _ t]) simp_all
qed

lemma connexe_first:
  assumes "represents ctx st" and "varno_en_cours ctx = -1" and "\<not> var_sub ctx" and "var_ok n v"
  shows "connexe_var v ctx =
    Inr (ctx\<lparr>varno_en_cours := int (varno v), var_sub := snd (side_of v) \<or> fst (side_of v) \<in> set (snd st)\<rparr>)"
proof -
  obtain ts Fl Fs where H: "holds (emem ctx) (list_composantes_connexes ctx) (composante_connexe_sub_level ctx) ts (snd st) Fl Fs"
    using assms(1) by (auto simp: represents_def)
  show ?thesis
    using assms(2-4) is_sub_holds [OF H refl, of "int (varno v)"]
    by (auto simp: connexe_var_def side_of_def var_ok_def int_of_index_def Let_def)
qed

text \<open>The two ways to join, on the partition.\<close>

lemma join_outer:
  assumes H: "holds (emem ctx) (list_composantes_connexes ctx) (composante_connexe_sub_level ctx) ts s Fl Fs"
    and part: "partitions n (contents ts, s)" and v: "v \<in> {1..n}" "v \<notin> set s"
  shows "\<exists>ctx'. join_sub_level v ctx = Inr ctx' \<and>
    represents ctx' (without v (contents ts), s @ comp_of v (contents ts))"
proof -
  obtain t where t: "t \<in> set ts" "v \<in> elems t" using listed [OF part v] by blast
  obtain ctx' Fl' Fs' where j: "join_sub_level v ctx = Inr ctx'" "holds (emem ctx') (list_composantes_connexes ctx')
     (composante_connexe_sub_level ctx') (filter (\<lambda>t. v \<notin> elems t) ts) (s @ fst (snd t)) Fl' Fs'"
    using join_sub_level_holds [OF H t] by blast
  then show ?thesis by (auto simp: represents_def comp_of_contents [OF H t] without_contents)
qed

lemma join_inner:
  assumes H: "holds (emem ctx) (list_composantes_connexes ctx) (composante_connexe_sub_level ctx) ts s Fl Fs"
    and part: "partitions n (contents ts, s)" and v: "v \<in> {1..n}" "v \<notin> set s"
    and w: "varno_en_cours ctx \<in> {1..n}" "varno_en_cours ctx \<notin> set s"
  shows "\<exists>ctx'. join_components v ctx = Inr ctx' \<and>
    represents ctx' (add_edge ((varno_en_cours ctx, False), (v, False)) (contents ts, s))"
proof -
  let ?w = "varno_en_cours ctx"
  obtain t where t: "t \<in> set ts" "?w \<in> elems t" using listed [OF part w] by blast
  obtain u where u: "u \<in> set ts" "v \<in> elems u" using listed [OF part v] by blast
  note c = comp_of_contents [OF H t] comp_of_contents [OF H u]
  show ?thesis
  proof (cases "t = u")
    case True
    then have "join_components v ctx = Inr ctx"
      using return_list_holds [OF H refl t] return_list_holds [OF H refl u] by (simp add: join_components_def)
    then show ?thesis using c True u(2) H v(2) w(2) by (auto simp: represents_def Let_def)
  next
    case False
    obtain ctx' Fl' F where j: "join_components v ctx = Inr ctx'" "holds (emem ctx') (list_composantes_connexes ctx')
      (composante_connexe_sub_level ctx') (filter (\<lambda>t. v \<notin> elems t) (filter (\<lambda>t. ?w \<notin> elems t) ts) @
        [(fst t, fst (snd t) @ fst (snd u), F)]) s Fl' Fs"
      using join_components_holds [OF H t u False] by blast
    have "v \<notin> elems t" using holdsD(7) [OF H t(1) u(1) False] u(2) by blast
    moreover have "represents ctx' (contents (filter (\<lambda>t. v \<notin> elems t) (filter (\<lambda>t. ?w \<notin> elems t) ts)) @
        [fst (snd t) @ fst (snd u)], s)"
      unfolding represents_def using j(2)
      by (intro exI [of _ "filter (\<lambda>t. v \<notin> elems t) (filter (\<lambda>t. ?w \<notin> elems t) ts) @ [(fst t, fst (snd t) @ fst (snd u), F)]"]
            exI [of _ Fl'] exI [of _ Fs]) simp
    ultimately show ?thesis
      using j(1) c v(2) w(2) by (simp add: Let_def without_contents del: filter_filter)
  qed
qed

lemma connexe_second:
  assumes H: "holds (emem ctx) (list_composantes_connexes ctx) (composante_connexe_sub_level ctx) ts s Fl Fs"
    and part: "partitions n (contents ts, s)" and a: "side_ok n a" "fst a \<noteq> -1" and w: "var_ok n w"
    and ctx: "varno_en_cours ctx = fst a" "var_sub ctx \<longleftrightarrow> snd a \<or> fst a \<in> set s"
  shows "\<exists>ctx'. connexe_var w ctx = Inr ctx' \<and> represents ctx' (add_edge (a, side_of w) (contents ts, s))"
proof -
  let ?b = "int (varno w)" and ?s2 = "int (varno w) \<in> set s \<or> 0 < varlevelsup w"
  have idx: "int_of_index (varno w) = ?b" using w by (simp add: var_ok_def int_of_index_def)
  note sub = is_sub_holds [OF H refl, of ?b]
  have b: "?b \<in> {1..n} \<and> ?b \<notin> set s" if "\<not> ?s2"
    using w that by (simp add: var_ok_def side_ok_def side_of_def)
  have av: "fst a \<in> {1..n} \<and> fst a \<notin> set s \<and> \<not> snd a" if "\<not> var_sub ctx"
    using a(1) ctx(2) that by (simp add: side_ok_def)
  obtain a1 a2 where eq: "a = (a1, a2)" by (cases a)
  consider "var_sub ctx" "?s2" | "var_sub ctx" "\<not> ?s2" | "\<not> var_sub ctx" "?s2" | "\<not> var_sub ctx" "\<not> ?s2" by argo
  then show ?thesis
  proof cases
    case 1
    then have "connexe_var w ctx = Inr ctx" using sub ctx a(2) idx by (auto simp: connexe_var_def Let_def)
    moreover have "add_edge (a, side_of w) (contents ts, s) = (contents ts, s)" using 1 ctx(2) eq by (simp add: side_of_def)
    moreover have "represents ctx (contents ts, s)" unfolding represents_def using H by auto
    ultimately show ?thesis by simp
  next
    case 2
    then show ?thesis
      using join_outer [OF H part] b [OF 2(2)] sub ctx a(2) idx eq by (simp add: connexe_var_def side_of_def Let_def)
  next
    case 3
    then show ?thesis
      using join_outer [OF H part, of a1] av [OF 3(1)] sub ctx a(2) idx eq
      by (simp add: connexe_var_def side_of_def Let_def)
  next
    case 4
    have "connexe_var w ctx = join_components ?b ctx"
      using sub ctx a(2) idx 4 by (simp add: connexe_var_def Let_def)
    then show ?thesis
      using join_inner [OF H part, of ?b] b [OF 4(2)] av [OF 4(1)] ctx(1) 4 eq by (simp add: side_of_def)
  qed
qed

text \<open>A comparison of two variables adds an edge.\<close>

lemma connexe_edge:
  assumes rep: "represents ctx st" and "partitions n st" and "varno_en_cours ctx = -1" "\<not> var_sub ctx"
    and "var_ok n v" "var_ok n w"
  shows "\<exists>ctx1 ctx2. connexe_var v ctx = Inr ctx1 \<and> connexe_var w ctx1 = Inr ctx2 \<and>
    represents ctx2 (add_edge (side_of v, side_of w) st)"
proof -
  obtain ts Fl Fs where H: "holds (emem ctx) (list_composantes_connexes ctx) (composante_connexe_sub_level ctx) ts (snd st) Fl Fs"
    "contents ts = fst st" using rep by (auto simp: represents_def)
  define ctx1 where "ctx1 = ctx\<lparr>varno_en_cours := int (varno v), var_sub := snd (side_of v) \<or> fst (side_of v) \<in> set (snd st)\<rparr>"
  have 1: "connexe_var v ctx = Inr ctx1"
    unfolding ctx1_def by (rule connexe_first [OF rep assms(3-5)])
  have H1: "holds (emem ctx1) (list_composantes_connexes ctx1) (composante_connexe_sub_level ctx1) ts (snd st) Fl Fs"
    using H(1) by (simp add: ctx1_def)
  have "\<exists>ctx2. connexe_var w ctx1 = Inr ctx2 \<and> represents ctx2 (add_edge (side_of v, side_of w) (contents ts, snd st))"
    by (rule connexe_second [OF H1 _ _ _ assms(6)]) (use assms(2,5) H(2) in \<open>auto simp: ctx1_def var_ok_def side_of_def\<close>)
  then show ?thesis using 1 H(2) by simp
qed

end
