(* ===== verification/Exist_Edges.thy ===== *)
theory Exist_Edges
  imports Exist_Components
begin

section \<open>The components of a query\<close>

text \<open>
  The walker \<open>create_connexe\<close> over a join tree: which conditions it understands, which edges they
  give, and that the components read off at the end are the connected components of these edges.
\<close>

subsection \<open>Operands\<close>

text \<open>
  Operands are variables, constants, parameters, and functions and type conversions of operands. Their
  variables are visited from left to right.
\<close>

fun operand :: "node \<Rightarrow> bool" where
  "operand (Var v) = True"
| "operand (Const c) = True"
| "operand (Leaf t f) = True"
| "operand (ArgNode t f arg) = operand arg"
| "operand (ArgsNode t f args) = list_all operand args"
| "operand _ = False"

fun operand_vars :: "node \<Rightarrow> pg_var list" where
  "operand_vars (Var v) = [v]"
| "operand_vars (ArgNode t f arg) = operand_vars arg"
| "operand_vars (ArgsNode t f args) = concat (map operand_vars args)"
| "operand_vars _ = []"

fun visit :: "pg_var list \<Rightarrow> context_exists \<Rightarrow> (bool \<times> context_exists) res" where
  "visit [] ctx = Inr (False, ctx)"
| "visit (v # vs) ctx = bnd (connexe_var v ctx) (visit vs)"

lemma visit_append: "visit (vs @ ws) ctx = bnd (visit vs ctx) (\<lambda>(_, ctx). visit ws ctx)"
proof (induction vs arbitrary: ctx)
  case (Cons v vs)
  then show ?case by (cases "connexe_var v ctx") simp_all
qed simp

lemma visit_False: "visit vs ctx = Inr (b, ctx') \<Longrightarrow> \<not> b"
  by (induction vs arbitrary: ctx) auto

lemma walk_visit:
  assumes "\<And>x ctx. x \<in> set xs \<Longrightarrow> w x ctx = visit (f x) ctx"
  shows "walk_list w (map Inr xs) ctx = visit (concat (map f xs)) ctx"
  using assms
proof (induction xs arbitrary: ctx)
  case Nil
  show ?case by simp
next
  case (Cons x xs)
  have "(case r of (b, s) \<Rightarrow> if b then Inr (True, s) else walk_list w (map Inr xs) s) =
        (case r of (_, s) \<Rightarrow> visit (concat (map f xs)) s)" if "visit (f x) ctx = Inr r" for r
    using Cons visit_False [of "f x" ctx "fst r" "snd r"] that by (cases r) simp
  then show ?case using Cons.prems [of x ctx] by (cases "visit (f x) ctx") (simp_all add: visit_append)
qed

lemma create_connexe_operand: "operand n \<Longrightarrow> create_connexe n ctx = visit (operand_vars n) ctx"
proof (induction n arbitrary: ctx rule: operand.induct)
  case (5 t f args)
  have "walk_list create_connexe (map Inr args) ctx = visit (concat (map operand_vars args)) ctx"
    by (rule walk_visit) (use 5 in \<open>simp add: list_all_iff\<close>)
  then show ?case
    by (simp add: create_connexe.simps [of "ArgsNode t f args"] expression_tree_walker_def walk_subnodes_def)
next
  case (4 t f arg)
  have "walk_list create_connexe (map Inr [arg]) ctx = visit (concat (map operand_vars [arg])) ctx"
    by (rule walk_visit) (use 4 in simp)
  then show ?case
    by (simp add: create_connexe.simps [of "ArgNode t f arg"] expression_tree_walker_def walk_subnodes_def)
qed (simp_all add: create_connexe.simps [of "Var _"] create_connexe.simps [of "Const _"] create_connexe.simps [of "Leaf _ _"]
    expression_tree_walker_def walk_subnodes_def bnd_def split: sum.splits)

subsection \<open>Conditions and their edges\<close>

text \<open>
  A join condition combines comparisons of operands that mention at most two variables, whose numbers
  are those of the \<open>n\<close> relations or belong to an outer query. Sub-queries are not entered.
\<close>

abbreviation args_vars :: "node list \<Rightarrow> pg_var list" where
  "args_vars args \<equiv> concat (map operand_vars args)"

fun join_cond :: "int \<Rightarrow> node \<Rightarrow> bool" where
  "join_cond n Null = True"
| "join_cond n (Const c) = True"
| "join_cond n (Leaf t f) = True"
| "join_cond n (RangeTblRef i) = True"
| "join_cond n (Query q rtable jointree targetList) = True"
| "join_cond n (OpExpr opno f args) =
     (list_all operand args \<and> length (args_vars args) \<le> 2 \<and> list_all (var_ok n) (args_vars args))"
| "join_cond n (BoolExpr b args l) = list_all (join_cond n) args"
| "join_cond n (SubLink t f testexpr subselect) = (join_cond n testexpr \<and> join_cond n subselect)"
| "join_cond n (TList xs) = list_all (join_cond n) xs"
| "join_cond n (FromExpr fromlist quals) = (list_all (join_cond n) fromlist \<and> join_cond n quals)"
| "join_cond n (JoinExpr f larg rarg quals) = (join_cond n larg \<and> join_cond n rarg \<and> join_cond n quals)"
| "join_cond n _ = False"

fun compared :: "pg_var list \<Rightarrow> (side \<times> side) list" where
  "compared [v, w] = [(side_of v, side_of w)]"
| "compared _ = []"

fun join_edges :: "node \<Rightarrow> (side \<times> side) list" where
  "join_edges (OpExpr opno f args) = compared (args_vars args)"
| "join_edges (BoolExpr b args l) = concat (map join_edges args)"
| "join_edges (SubLink t f testexpr subselect) = join_edges testexpr @ join_edges subselect"
| "join_edges (TList xs) = concat (map join_edges xs)"
| "join_edges (FromExpr fromlist quals) = concat (map join_edges fromlist) @ join_edges quals"
| "join_edges (JoinExpr f larg rarg quals) = join_edges larg @ join_edges rarg @ join_edges quals"
| "join_edges _ = []"

lemma compared_ok: "list_all (var_ok n) vs \<Longrightarrow> edges_ok n (compared vs)"
  by (cases vs rule: compared.cases) (auto simp: edges_ok_def var_ok_def)

lemma join_edges_ok: "join_cond n k \<Longrightarrow> edges_ok n (join_edges k)"
proof (induction n k rule: join_cond.induct)
  case (6 n opno f args)
  then show ?case by (simp add: compared_ok)
qed (auto simp: edges_ok_def list_all_iff)

definition quiet :: "context_exists \<Rightarrow> bool" where
  "quiet ctx \<longleftrightarrow> varno_en_cours ctx = -1 \<and> \<not> var_sub ctx"

text \<open>A call that returns false between comparisons and adds edges.\<close>

definition adds :: "int \<Rightarrow> (context_exists \<Rightarrow> (bool \<times> context_exists) res) \<Rightarrow> (side \<times> side) list \<Rightarrow> bool" where
  "adds n f es \<longleftrightarrow>
     (\<forall>ctx st. represents ctx st \<longrightarrow> partitions n st \<longrightarrow> quiet ctx \<longrightarrow>
        (\<exists>ctx'. f ctx = Inr (False, ctx') \<and> quiet ctx' \<and> represents ctx' (add_edges es st) \<and> partitions n (add_edges es st)))"

lemma addsD:
  assumes "adds n f es" and "represents ctx st" and "partitions n st" and "quiet ctx"
  obtains ctx' where "f ctx = Inr (False, ctx')" and "quiet ctx'" and "represents ctx' (add_edges es st)"
    and "partitions n (add_edges es st)"
  using assms unfolding adds_def by blast

lemma adds_nothing: "adds n (\<lambda>ctx. Inr (False, ctx)) []"
  by (simp add: adds_def)

lemma adds_walk_list:
  assumes "\<And>x. x \<in> set xs \<Longrightarrow> adds n (w x) (f x)"
  shows "adds n (walk_list w (map Inr xs)) (concat (map f xs))"
  using assms
proof (induction xs)
  case Nil
  show ?case by (simp add: adds_def)
next
  case (Cons x xs)
  have IH: "adds n (walk_list w (map Inr xs)) (concat (map f xs))" by (rule Cons.IH) (simp add: Cons.prems)
  show ?case
    unfolding adds_def
  proof (intro allI impI)
    fix ctx st assume h: "represents ctx st" "partitions n st" "quiet ctx"
    obtain ctx1 where 1: "w x ctx = Inr (False, ctx1)" "quiet ctx1" "represents ctx1 (add_edges (f x) st)"
      "partitions n (add_edges (f x) st)" by (rule addsD [OF Cons.prems h, of x]) auto
    obtain ctx2 where "walk_list w (map Inr xs) ctx1 = Inr (False, ctx2)" "quiet ctx2"
      "represents ctx2 (add_edges (concat (map f xs)) (add_edges (f x) st))"
      "partitions n (add_edges (concat (map f xs)) (add_edges (f x) st))"
      by (rule addsD [OF IH 1(3,4,2)])
    then show "\<exists>ctx'. walk_list w (map Inr (x # xs)) ctx = Inr (False, ctx') \<and> quiet ctx' \<and>
        represents ctx' (add_edges (concat (map f (x # xs))) st) \<and> partitions n (add_edges (concat (map f (x # xs))) st)"
      using 1(1) by (simp add: add_edges_append)
  qed
qed

lemma represents_quiet: "represents (ctx\<lparr>varno_en_cours := i, var_sub := b\<rparr>) st = represents ctx st"
  by (simp add: represents_def)

lemma partitions_add_edges:
  assumes "partitions n st" and "edges_ok n es"
  shows "partitions n (add_edges es st)"
  using assms
proof (induction es arbitrary: st)
  case (Cons e es)
  obtain v ov w ow where e: "e = ((v, ov), (w, ow))" by (metis surj_pair)
  obtain cs sub where st: "st = (cs, sub)" by (cases st)
  have "side_ok n (v, ov)" "side_ok n (w, ow)" "edges_ok n es" using Cons.prems(2) e by (auto simp: edges_ok_def)
  then show ?case using Cons.IH add_edge_blocks [of n cs sub v ov w ow] Cons.prems(1) e st by (simp del: add_edge.simps)
qed simp

lemma visit_compared:
  assumes "represents ctx st" and "partitions n st" and q: "varno_en_cours ctx = -1" "\<not> var_sub ctx"
    and "length vs \<le> 2" and "list_all (var_ok n) vs"
  shows "\<exists>ctx'. visit vs ctx = Inr (False, ctx') \<and> represents ctx' (add_edges (compared vs) st)"
proof -
  consider "vs = []" | v where "vs = [v]" | v w where "vs = [v, w]"
    using assms(5) by (cases vs; cases "tl vs") (auto simp: Suc_le_eq)
  then show ?thesis
  proof cases
    case 1
    then show ?thesis using assms(1) by simp
  next
    case 2
    then show ?thesis using connexe_first [OF assms(1) q, of n v] assms(1,6) by (simp add: represents_quiet)
  next
    case 3
    then show ?thesis using connexe_edge [OF assms(1,2) q, of v w] assms(6) by auto
  qed
qed

lemma adds_comparison:
  assumes "list_all operand args" and "length (args_vars args) \<le> 2" and "list_all (var_ok n) (args_vars args)"
  shows "adds n (create_connexe (OpExpr opno f args)) (compared (args_vars args))"
  unfolding adds_def
proof (intro allI impI)
  fix ctx st assume h: "represents ctx st" "partitions n st" "quiet ctx"
  have "walk_list create_connexe (map Inr args) ctx = visit (args_vars args) ctx"
    by (rule walk_visit) (use assms(1) create_connexe_operand in \<open>simp add: list_all_iff\<close>)
  then have call: "create_connexe (OpExpr opno f args) ctx =
      bnd (visit (args_vars args) ctx) (\<lambda>(r, ctx). Inr (r, ctx\<lparr>varno_en_cours := -1, var_sub := False\<rparr>))"
    by (simp add: create_connexe.simps [of "OpExpr opno f args"] expression_tree_walker_def walk_subnodes_def)
  obtain ctx' where "visit (args_vars args) ctx = Inr (False, ctx')" "represents ctx' (add_edges (compared (args_vars args)) st)"
    using visit_compared [OF h(1,2) _ _ assms(2,3)] h(3) by (auto simp: quiet_def)
  then show "\<exists>ctx'. create_connexe (OpExpr opno f args) ctx = Inr (False, ctx') \<and> quiet ctx' \<and>
      represents ctx' (add_edges (compared (args_vars args)) st) \<and> partitions n (add_edges (compared (args_vars args)) st)"
    using call partitions_add_edges [OF h(2) compared_ok [OF assms(3)]] by (simp add: represents_quiet quiet_def)
qed

text \<open>A whole join tree.\<close>

lemma adds_walker:
  assumes "create_connexe k = expression_tree_walker create_connexe k" and "walk_subnodes k = map Inr ks"
    and "\<And>x. x \<in> set ks \<Longrightarrow> adds n (create_connexe x) (g x)"
  shows "adds n (create_connexe k) (concat (map g ks))"
proof -
  have "expression_tree_walker create_connexe k = walk_list create_connexe (map Inr ks)"
    by (rule ext) (simp add: expression_tree_walker_def assms(2))
  then show ?thesis using adds_walk_list [of ks n create_connexe g, OF assms(3)] assms(1) by simp
qed

lemma create_connexe_walks:
  "create_connexe (BoolExpr b args l) = expression_tree_walker create_connexe (BoolExpr b args l)"
  "create_connexe (SubLink t f testexpr subselect) = expression_tree_walker create_connexe (SubLink t f testexpr subselect)"
  "create_connexe (TList xs) = expression_tree_walker create_connexe (TList xs)"
  "create_connexe (FromExpr fromlist quals) = expression_tree_walker create_connexe (FromExpr fromlist quals)"
  "create_connexe (JoinExpr f larg rarg quals) = expression_tree_walker create_connexe (JoinExpr f larg rarg quals)"
  by (rule ext, subst create_connexe.simps, simp)+

lemma adds_list:
  assumes "\<And>x. x \<in> set xs \<Longrightarrow> adds n (create_connexe x) (join_edges x)"
  shows "adds n (create_connexe (list_node xs)) (concat (map join_edges xs))"
proof (cases xs)
  case Nil
  then show ?thesis by (simp add: adds_def create_connexe.simps [of Null])
next
  case (Cons y ys)
  have "adds n (create_connexe (TList xs)) (concat (map join_edges xs))"
    by (rule adds_walker [OF create_connexe_walks(3) _ assms]) (simp_all add: walk_subnodes_def)
  then show ?thesis using Cons by simp
qed

lemma adds_create_connexe: "join_cond n k \<Longrightarrow> adds n (create_connexe k) (join_edges k)"
proof (induction n k rule: join_cond.induct)
  case (6 n opno f args)
  then show ?case using adds_comparison [of args n opno f] by simp
next
  case (7 n b args l)
  have "adds n (create_connexe (BoolExpr b args l)) (concat (map join_edges args))"
    by (rule adds_walker [OF create_connexe_walks(1)]) (use 7 in \<open>auto simp: walk_subnodes_def list_all_iff\<close>)
  then show ?case by simp
next
  case (8 n t f testexpr subselect)
  have "adds n (create_connexe (SubLink t f testexpr subselect)) (concat (map join_edges [testexpr, subselect]))"
    by (rule adds_walker [OF create_connexe_walks(2)]) (use 8 in \<open>auto simp: walk_subnodes_def\<close>)
  then show ?case by simp
next
  case (9 n xs)
  have "adds n (create_connexe (TList xs)) (concat (map join_edges xs))"
    by (rule adds_walker [OF create_connexe_walks(3)]) (use 9 in \<open>auto simp: walk_subnodes_def list_all_iff\<close>)
  then show ?case by simp
next
  case (10 n fromlist quals)
  have l: "adds n (create_connexe (list_node fromlist)) (concat (map join_edges fromlist))"
    by (rule adds_list) (use 10 in \<open>auto simp: list_all_iff\<close>)
  have e: "join_edges (list_node fromlist) = concat (map join_edges fromlist)" by (cases fromlist) simp_all
  have "adds n (create_connexe (FromExpr fromlist quals)) (concat (map join_edges [list_node fromlist, quals]))"
    by (rule adds_walker [OF create_connexe_walks(4)]) (use 10 l e in \<open>auto simp: walk_subnodes_def\<close>)
  then show ?case using e by simp
next
  case (11 n f larg rarg quals)
  have "adds n (create_connexe (JoinExpr f larg rarg quals)) (concat (map join_edges [larg, rarg, quals]))"
    by (rule adds_walker [OF create_connexe_walks(5)]) (use 11 in \<open>auto simp: walk_subnodes_def\<close>)
  then show ?case by simp
qed (simp_all add: adds_def create_connexe.simps [of Null] create_connexe.simps [of "Const _"] create_connexe.simps [of "Leaf _ _"]
      create_connexe.simps [of "RangeTblRef _"] create_connexe.simps [of "Query _ _ _ _"] expression_tree_walker_def walk_subnodes_def)

subsection \<open>From the start to the result\<close>

definition numbered :: "nat \<Rightarrow> comp list \<Rightarrow> bool" where
  "numbered i ts \<longleftrightarrow> contents ts = map (\<lambda>i. [int i]) [1..<Suc i]"

lemma singletons_loop_holds:
  assumes "holds m l 0 ts [] Fl {}" and "numbered i ts"
  shows "\<exists>l' m' us Fl'. singletons_loop k (int i) m l = Inr (l', m') \<and> holds m' l' 0 us [] Fl' {} \<and> numbered (i + k) us"
  using assms
proof (induction k arbitrary: i m l ts Fl)
  case 0
  then show ?case by auto
next
  case (Suc k)
  note H = Suc.prems(1)
  have "list_rep m 0 T_IntList []" by simp
  from lappend_with_yields [OF holdsD(1) [OF H] this, of "IntV (int i + 1)"] obtain p m1 F where r: "lappend_int m 0 (int i + 1) = Inr (p, m1)" "mem_ok m1" "agree {} m m1"
    "owns m1 p T_IntList [IntV (int i + 1)] F" "F \<subseteq> {a. brk m \<le> a}" unfolding yields_def lappend_int_def by auto
  let ?t = "(p, [int i + 1], F)"
  have H1: "holds m1 l 0 ts [] Fl {}" by (rule holds_frame [OF H r(3,2)]) simp_all
  have old: "elems u \<subseteq> {..int i}" if "u \<in> set ts" for u
  proof -
    have "fst (snd u) \<in> set (contents ts)" using that by simp
    then show ?thesis unfolding Suc.prems(2) [unfolded numbered_def] by auto
  qed
  have sep: "area u \<inter> area ?t = {} \<and> elems u \<inter> elems ?t = {}" if "u \<in> set ts" for u
    using fresh_disjoint [OF comp_at_below [OF bspec [OF holdsD(5) [OF H] that] holdsD(1) [OF H]] r(5)] old [OF that] by auto
  have t: "comp_at m1 ?t" "area ?t \<inter> Fl = {}" "area ?t \<inter> {} = {}"
    using r(4) fresh_disjoint [OF owns_below [OF holdsD(2,1) [OF H]] r(5)] by (auto simp: comp_at_def)
  obtain l2 m2 F2 where a: "lappend m1 l (fst ?t) = Inr (l2, m2)" "holds m2 l2 0 (ts @ [?t]) [] F2 {}"
    using holds_add [OF H1 t sep] by blast
  have "numbered (Suc i) (ts @ [?t])" using Suc.prems(2) by (simp add: numbered_def)
  from Suc.IH [OF a(2) this] show ?case using r(1) a(1) by (simp add: add.commute)
qed

lemma make_context_exists_represents:
  "\<exists>ctx. make_context_exists empty_mem n = Inr ctx \<and> quiet ctx \<and> represents ctx (singletons n)"
proof -
  have "holds empty_mem 0 0 [] [] {} {}" by (simp add: holds_def)
  from singletons_loop_holds [OF this, of 0 n] obtain l m ts Fl where
    r: "singletons_loop n 0 empty_mem 0 = Inr (l, m)" "holds m l 0 ts [] Fl {}" "numbered n ts"
    by (auto simp: numbered_def)
  then show ?thesis
    by (auto simp: make_context_exists_def quiet_def represents_def singletons_def numbered_def simp del: upt_Suc)
qed

lemma read_loop_chain:
  "chain m p cs \<Longrightarrow> length cs < fuel \<Longrightarrow> (\<And>d. d \<in> snd ` set cs \<Longrightarrow> f d = Inr (g d)) \<Longrightarrow>
   read_loop fuel m f p = Inr (map g (map snd cs))"
proof (induction cs arbitrary: p fuel)
  case Nil
  then show ?case by (cases fuel) auto
next
  case (Cons c cs)
  obtain a d where c: "c = (a, d)" by (cases c)
  obtain k where k: "fuel = Suc k" "length cs < k" using Cons.prems(2) by (cases fuel) auto
  obtain n where n: "p = a" "a \<noteq> 0" "heap m a = Some (ListCell \<lparr>cdata = d, cnext = n\<rparr>)" "chain m n cs"
    using Cons.prems(1) c by auto
  have "read_loop k m f n = Inr (map g (map snd cs))"
    by (rule Cons.IH [OF n(4) k(2)]) (use Cons.prems(3) in simp)
  moreover have "f d = Inr (g d)" using Cons.prems(3) c by simp
  ultimately show ?case using c k(1) n by (simp add: load_cell_def)
qed

lemma read_list_owns:
  assumes "mem_ok m" and "owns m l tag vs F" and "\<And>d. d \<in> set vs \<Longrightarrow> f d = Inr (g d)"
  shows "read_list m f l = Inr (map g vs)"
proof -
  obtain cs where cs: "list_rep m l tag cs" "map snd cs = vs" using assms(2) unfolding owns_def by (elim conjE exE)
  have im: "snd ` set cs = set vs" using arg_cong [OF cs(2), of set] by simp
  have "read_loop (loop_fuel m) m f (if cs = [] then 0 else fst (hd cs)) = Inr (map g (map snd cs))"
    by (rule read_loop_chain [OF list_rep_chain [OF cs(1)] chain_length_fuel [OF assms(1) list_rep_chain [OF cs(1)]]])
      (simp add: im assms(3))
  then show ?thesis using list_head_rep [OF cs(1)] cs(2) by (simp add: read_list_def)
qed

lemma read_components_holds:
  assumes H: "holds m l sub ts s Fl Fs"
  shows "read_components m l = Inr (contents ts)"
proof -
  define g where "g d = (case d of Ptr p \<Rightarrow> (case read_list m as_int p of Inr xs \<Rightarrow> xs | _ \<Rightarrow> []) | _ \<Rightarrow> [])" for d
  have comp: "read_list m as_int (fst t) = Inr (fst (snd t))" if "t \<in> set ts" for t
  proof -
    define h where "h d = (case d of IntV i \<Rightarrow> i | _ \<Rightarrow> 0)" for d
    have o: "owns m (fst t) T_IntList (map IntV (fst (snd t))) (area t)" using holdsD(5) [OF H] that by (simp add: comp_at_def)
    have "read_list m as_int (fst t) = Inr (map h (map IntV (fst (snd t))))"
      by (rule read_list_owns [OF holdsD(1) [OF H] o]) (auto simp: h_def)
    then show ?thesis by (simp add: h_def comp_def)
  qed
  have "read_list m (\<lambda>d. bnd (as_ptr d) (read_list m as_int)) l = Inr (map g (map (\<lambda>t. Ptr (fst t)) ts))"
  proof (rule read_list_owns [OF holdsD(1,2) [OF H]])
    fix d assume "d \<in> set (map (\<lambda>t. Ptr (fst t)) ts)"
    then obtain t where t: "t \<in> set ts" "d = Ptr (fst t)" by auto
    show "bnd (as_ptr d) (read_list m as_int) = Inr (g d)" using comp [OF t(1)] t(2) by (simp add: g_def)
  qed
  moreover have "map g (map (\<lambda>t. Ptr (fst t)) ts) = contents ts" using comp by (simp add: g_def)
  ultimately show ?thesis by (simp add: read_components_def)
qed

lemma components_partition:
  assumes "join_cond (int n) jointree"
  shows "components jointree n = Inr (fst (add_edges (join_edges jointree) (singletons n)))"
proof -
  obtain ctx where 0: "make_context_exists empty_mem n = Inr ctx" "quiet ctx" "represents ctx (singletons n)"
    using make_context_exists_represents by blast
  have part: "partitions (int n) (singletons n)" using components_of_singletons by (simp add: components_of_def)
  obtain ctx' where 1: "create_connexe jointree ctx = Inr (False, ctx')"
    "represents ctx' (add_edges (join_edges jointree) (singletons n))"
    by (rule addsD [OF adds_create_connexe [OF assms] 0(3) part 0(2)])
  then obtain ts Fl Fs where "holds (emem ctx') (list_composantes_connexes ctx') (composante_connexe_sub_level ctx') ts
      (snd (add_edges (join_edges jointree) (singletons n))) Fl Fs"
    "contents ts = fst (add_edges (join_edges jointree) (singletons n))"
    unfolding represents_def by blast
  then show ?thesis using read_components_holds 0(1) 1(1) by (simp add: components_def)
qed

lemma same_block_inner:
  assumes "partitions n (cs, sub)" and "x \<in> set (concat cs)" and "y \<in> {1..n}"
  shows "same_block (cs, sub) x y \<longleftrightarrow> (\<exists>c \<in> set cs. x \<in> set c \<and> y \<in> set c)" and "\<not> same_block (cs, sub) x 0"
proof -
  have "x \<notin> insert 0 (set sub)" and "\<forall>c \<in> set cs. 0 \<notin> set c"
    using assms(1,2) unfolding partitions_def by force+
  then show "same_block (cs, sub) x y \<longleftrightarrow> (\<exists>c \<in> set cs. x \<in> set c \<and> y \<in> set c)" "\<not> same_block (cs, sub) x 0"
    by (auto simp: same_block_def)
qed

text \<open>
  C3. For a join tree of relations and comparisons with at most two variables each, the first half of
  \<open>optimize_exist\<close> returns, and what it returns is the set of connected components of the join graph
  that are not connected to an outer query: every relation not connected to an outer query is in
  exactly one component, no component is empty, and two relations are in one component exactly when
  a chain of comparisons connects them.
\<close>

theorem exist_components:
  assumes "join_cond (int n) jointree" and "E = edge_set (join_edges jointree)"
  shows "\<exists>cs. components jointree n = Inr cs \<and> distinct (concat cs) \<and> [] \<notin> set cs \<and>
    set (concat cs) = {x \<in> {1..int n}. (x, 0) \<notin> conn E} \<and>
    (\<forall>x \<in> set (concat cs). \<forall>y \<in> {1..int n}. (\<exists>c \<in> set cs. x \<in> set c \<and> y \<in> set c) \<longleftrightarrow> (x, y) \<in> conn E)"
proof -
  obtain cs sub where st: "add_edges (join_edges jointree) (singletons n) = (cs, sub)" by (metis surj_pair)
  have comp: "components_of (int n) E (cs, sub)"
    using add_edges_singletons [OF join_edges_ok [OF assms(1)]] st assms(2) by simp
  have part: "partitions (int n) (cs, sub)" using comp by (simp add: components_of_def)
  have conn: "(x, y) \<in> conn E \<longleftrightarrow> same_block (cs, sub) x y" if "x \<in> {0..int n}" "y \<in> {0..int n}" for x y
    using comp that by (simp add: components_of_def)
  have all: "x \<in> {1..int n} \<longleftrightarrow> x \<in> set (concat cs) \<or> x \<in> set sub" for x
    using part unfolding partitions_def by (simp add: set_eq_iff)
  have "x \<in> set (concat cs) \<longleftrightarrow> x \<in> {1..int n} \<and> (x, 0) \<notin> conn E" for x
  proof (cases "x \<in> set (concat cs)")
    case True
    then show ?thesis using same_block_inner(2) [OF part True, of 1] all [of x] conn [of x 0]
      by (cases "1 \<le> int n") (auto simp: same_block_def)
  next
    case False
    then have "same_block (cs, sub) x 0" if "x \<in> {1..int n}" using that all [of x] by (simp add: same_block_def)
    then show ?thesis using False conn [of x 0] by auto
  qed
  then have inner: "set (concat cs) = {x \<in> {1..int n}. (x, 0) \<notin> conn E}" by blast
  have same: "(\<exists>c \<in> set cs. x \<in> set c \<and> y \<in> set c) \<longleftrightarrow> (x, y) \<in> conn E" if "x \<in> set (concat cs)" "y \<in> {1..int n}" for x y
    using same_block_inner(1) [OF part that] conn [of x y] all [of x] that by auto
  have "components jointree n = Inr cs" "distinct (concat cs)" "[] \<notin> set cs"
    using components_partition [OF assms(1)] part st unfolding partitions_def by simp_all
  then show ?thesis using inner same by (intro exI [of _ cs] conjI ballI)
qed

text \<open>Four relations, two of them compared, and one compared with a variable of an outer query.\<close>

definition sample_col :: "nat \<Rightarrow> nat \<Rightarrow> node" where
  "sample_col no up = Var \<lparr>varno = no, varattno = 1, vartype = 23, vartypmod = -1, varcollid = 0, varlevelsup = up,
     varnoold = no, varoattno = 1, vlocation = -1\<rparr>"

definition sample_jointree :: node where
  "sample_jointree = FromExpr [RangeTblRef 1, RangeTblRef 2, RangeTblRef 3, RangeTblRef 4]
     (BoolExpr AND_EXPR [OpExpr 96 [] [sample_col 1 0, sample_col 3 0], OpExpr 96 [] [sample_col 2 1, sample_col 4 0]] (-1))"

theorem exist_components_witness:
  "\<exists>cs. components sample_jointree 4 = Inr cs \<and> distinct (concat cs) \<and> [] \<notin> set cs \<and>
    set (concat cs) = {x \<in> {1..4}. (x, 0) \<notin> conn {(1, 3), (0, 4)}} \<and>
    (\<forall>x \<in> set (concat cs). \<forall>y \<in> {1..4}. (\<exists>c \<in> set cs. x \<in> set c \<and> y \<in> set c) \<longleftrightarrow> (x, y) \<in> conn {(1, 3), (0, 4)})"
  using exist_components [of 4 sample_jointree "{(1, 3), (0, 4)}"]
  by (simp add: sample_jointree_def sample_col_def var_ok_def side_of_def side_ok_def edge_set_def vertex_def insert_commute)

end
