(* ===== verification/Renumbering.thy ===== *)
theory Renumbering
  imports Exist_Edges Exec_Qual
begin

section \<open>Moving conditions and relations between queries\<close>

text \<open>
  When a relation moves into a sub-query the variables of the conditions that move and of those that
  stay have to follow it. This theory relates the two sides: \<open>deacrease\<close> and the deletion from the
  range table, \<open>is_in_list\<close> and the range table of the sub-query, and the mutators that rewrite the
  variables of a condition, whose common interface is the locale \<open>var_mutator\<close>.
\<close>

subsection \<open>Numbers\<close>

lemma deacrease_count_eq: "deacrease_count v xs i = i + int (length (filter (\<lambda>x. x < v) xs))"
  by (induction xs arbitrary: i) auto

lemma deacrease_eq: "deacrease v xs = v - int (length (filter (\<lambda>x. x < v) xs))"
  by (simp add: deacrease_def deacrease_count_eq)

lemma length_filter_range:
  assumes "distinct xs" and "\<And>x. x \<in> set xs \<Longrightarrow> P x \<Longrightarrow> a < x \<and> x < b" and "a < (b :: int)"
  shows "int (length (filter P xs)) \<le> b - a - 1"
proof -
  have "length (filter P xs) = card (set (filter P xs))" using distinct_card [of "filter P xs"] assms(1) by (simp del: set_filter)
  also have "\<dots> \<le> card {a<..<b}" by (rule card_mono) (use assms(2) in auto)
  finally show ?thesis using assms(3) by simp
qed

lemma deacrease_range:
  assumes "distinct xs" and "set xs \<subseteq> {1..n}" and "x \<in> {1..n}" and "x \<notin> set xs"
  shows "1 \<le> deacrease x xs" and "deacrease x xs \<le> n - int (length xs)"
proof -
  have "int (length (filter (\<lambda>y. y < x) xs)) \<le> x - 0 - 1"
    by (rule length_filter_range) (use assms in auto)
  then show "1 \<le> deacrease x xs" by (simp add: deacrease_eq)
  have "int (length (filter (\<lambda>y. \<not> y < x) xs)) \<le> (n + 1) - x - 1"
  proof (rule length_filter_range [OF assms(1)])
    fix y assume y: "y \<in> set xs" "\<not> y < x"
    then have "y \<le> n" "y \<noteq> x" using assms(2,4) by auto
    then show "x < y \<and> y < n + 1" using y(2) by simp
  qed (use assms(3) in simp)
  then show "deacrease x xs \<le> n - int (length xs)"
    using sum_length_filter_compl [of "\<lambda>y. y < x" xs] by (simp add: deacrease_eq)
qed

text \<open>Deleting in increasing order: each entry is found where the earlier deletions left it.\<close>

lemma filter_less_empty: "\<forall>y \<in> set xs. x \<le> y \<Longrightarrow> filter (\<lambda>y. y < (x :: int)) xs = []"
  by (auto simp: filter_empty_conv)

lemma nth_without:
  assumes "k < length xs"
  shows "j < k \<Longrightarrow> (take k xs @ drop (Suc k) xs) ! j = xs ! j"
    and "k \<le> j \<Longrightarrow> Suc j < length xs \<Longrightarrow> (take k xs @ drop (Suc k) xs) ! j = xs ! Suc j"
  using assms by (simp_all add: nth_append min_def)

lemma delete_rtes_sorted:
  assumes "sorted_wrt (<) vs" and "\<forall>v \<in> set vs. i < v \<and> v \<le> i + int (length rt)" and "0 \<le> i"
  shows "\<exists>rt'. delete_rtes i rt vs = Inr rt' \<and> length rt' + length vs = length rt \<and>
    (\<forall>x. i < x \<longrightarrow> x \<le> i + int (length rt) \<longrightarrow> x \<notin> set vs \<longrightarrow>
       rt' ! nat (x - 1 - i - int (length (filter (\<lambda>y. y < x) vs))) = rt ! nat (x - 1 - i))"
  using assms
proof (induction vs arbitrary: i rt)
  case Nil
  then show ?case by simp
next
  case (Cons v vs)
  define k where "k = nat (v - 1 - i)"
  define rt1 where "rt1 = take k rt @ drop (Suc k) rt"
  have v: "i < v" "v \<le> i + int (length rt)" "\<forall>w \<in> set vs. v < w" using Cons.prems(1,2) by auto
  have k: "k < length rt" "int k = v - 1 - i" using v by (auto simp: k_def)
  have len: "length rt1 = length rt - 1" using k(1) by (simp add: rt1_def)
  have "sorted_wrt (<) vs" "\<forall>w \<in> set vs. i + 1 < w \<and> w \<le> i + 1 + int (length rt1)" "0 \<le> i + 1"
    using Cons.prems v k(1) len by force+
  from Cons.IH [OF this] obtain rt' where rt': "delete_rtes (i + 1) rt1 vs = Inr rt'" "length rt' + length vs = length rt1"
    and nth: "\<And>x. i + 1 < x \<Longrightarrow> x \<le> i + 1 + int (length rt1) \<Longrightarrow> x \<notin> set vs \<Longrightarrow>
       rt' ! nat (x - 1 - (i + 1) - int (length (filter (\<lambda>y. y < x) vs))) = rt1 ! nat (x - 1 - (i + 1))" by blast
  have "rt' ! nat (x - 1 - i - int (length (filter (\<lambda>y. y < x) (v # vs)))) = rt ! nat (x - 1 - i)"
    if x: "i < x" "x \<le> i + int (length rt)" "x \<notin> set (v # vs)" for x
  proof (cases "x < v")
    case True
    have "filter (\<lambda>y. y < x) (v # vs) = []" "filter (\<lambda>y. y < x + 1) vs = []"
      using True v(3) by (intro filter_less_empty; force)+
    moreover have "x + 1 \<notin> set vs" "x + 1 \<le> i + 1 + int (length rt1)"
      using True v len k(1) by (auto simp: zless_imp_add1_zle)
    then have "rt' ! nat (x - 1 - i) = rt1 ! nat (x - 1 - i)"
      using nth [of "x + 1"] x(1) calculation(2) by (simp add: algebra_simps)
    moreover have "rt1 ! nat (x - 1 - i) = rt ! nat (x - 1 - i)"
      unfolding rt1_def by (rule nth_without(1) [OF k(1)]) (use True x k(2) in linarith)
    ultimately show ?thesis by simp
  next
    case False
    then have gt: "v < x" using x(3) by simp
    have "rt' ! nat (x - 1 - i - int (length (filter (\<lambda>y. y < x) (v # vs)))) = rt1 ! nat (x - 2 - i)"
      using nth [of x] gt x v len by (simp add: algebra_simps)
    also have "\<dots> = rt ! Suc (nat (x - 2 - i))"
      unfolding rt1_def by (rule nth_without(2) [OF k(1)]) (use gt x k v in linarith)+
    also have "Suc (nat (x - 2 - i)) = nat (x - 1 - i)" using gt v by linarith
    finally show ?thesis .
  qed
  moreover have "lnth rt (v - 1 - i) = Inr (rt ! k)" using k by (simp add: lnth_def k_def)
  ultimately show ?case using rt' len k(1) by (simp add: Let_def k_def [symmetric] rt1_def [symmetric])
qed

text \<open>The relations of the sub-query, in the order of the component.\<close>

lemma pick_rtes_eq:
  "set vs \<subseteq> {1..int (length rt)} \<Longrightarrow> pick_rtes rt vs = Inr (map (\<lambda>v. rt ! nat (v - 1)) vs)"
  by (induction vs) (auto simp: lnth_def)

lemma is_in_list_from_zero: "0 < i \<Longrightarrow> is_in_list_from i x vs = 0 \<longleftrightarrow> x \<notin> set vs"
  by (induction vs arbitrary: i) auto

lemma is_in_list_from_nth:
  "x \<in> set vs \<Longrightarrow> i \<le> is_in_list_from i x vs \<and> is_in_list_from i x vs < i + int (length vs) \<and>
     vs ! nat (is_in_list_from i x vs - i) = x"
proof (induction vs arbitrary: i)
  case (Cons v vs)
  show ?case
  proof (cases "x = v")
    case False
    then have h: "i + 1 \<le> is_in_list_from (i + 1) x vs" "is_in_list_from (i + 1) x vs < i + 1 + int (length vs)"
      "vs ! nat (is_in_list_from (i + 1) x vs - (i + 1)) = x" using Cons.IH [of "i + 1"] Cons.prems by auto
    have "nat (is_in_list_from (i + 1) x vs - i) = Suc (nat (is_in_list_from (i + 1) x vs - (i + 1)))"
      using h(1) by linarith
    then show ?thesis using False h by simp
  qed simp
qed simp

lemma substract_loop_take: "substract_loop i xs acc = acc @ take (max 1 (nat i)) xs"
proof (induction i xs acc rule: substract_loop.induct)
  case (2 i x xs acc)
  have "take (max 1 (nat i)) (x # xs) = x # take (max 1 (nat (i - 1))) xs" if "\<not> i \<le> 1"
  proof -
    have "max 1 (nat i) = Suc (max 1 (nat (i - 1)))" using that by linarith
    then show ?thesis by simp
  qed
  moreover have "max 1 (nat i) = 1" if "i \<le> 1" using that by linarith
  ultimately show ?case using 2 by simp
qed simp

subsection \<open>Mutators of variables\<close>

text \<open>
  Conditions the executor evaluates by itself, with a predicate on their variables, and the result of
  replacing every variable.
\<close>

fun evaluable :: "(pg_var \<Rightarrow> bool) \<Rightarrow> node \<Rightarrow> bool" where
  "evaluable P (Var v) = P v"
| "evaluable P (Const c) = True"
| "evaluable P (OpExpr opno f args) = list_all (evaluable P) args"
| "evaluable P (BoolExpr b args l) = (args \<noteq> [] \<and> list_all (evaluable P) args)"
| "evaluable P (NullTest t arg r l) = (\<not> r \<and> evaluable P arg)"
| "evaluable P _ = False"

fun rename :: "(pg_var \<Rightarrow> pg_var) \<Rightarrow> node \<Rightarrow> node" where
  "rename r (Var v) = Var (r v)"
| "rename r (OpExpr opno f args) = OpExpr opno f (map (rename r) args)"
| "rename r (BoolExpr b args l) = BoolExpr b (map (rename r) args) l"
| "rename r (NullTest t arg ir l) = NullTest t (rename r arg) ir l"
| "rename r n = n"

lemma eval_rename:
  assumes "op_function ec' = op_function ec"
    and "\<And>v. P v \<Longrightarrow> var_value ec' (varlevelsup (r v)) (varno (r v)) (varattno (r v)) = var_value ec (varlevelsup v) (varno v) (varattno v)"
  shows "evaluable P n \<Longrightarrow> ExecEvalExpr ec' (rename r n) = ExecEvalExpr ec n"
  using assms(2)
proof (induction P n rule: evaluable.induct)
  case (3 P opno f args)
  then have "map (ExecEvalExpr ec') (map (rename r) args) = map (ExecEvalExpr ec) args" by (simp add: list_all_iff)
  then show ?case unfolding rename.simps eval_simps assms(1) by (rule arg_cong)
next
  case (4 P b args l)
  then have args: "map (ExecEvalExpr ec') (map (rename r) args) = map (ExecEvalExpr ec) args" by (simp add: list_all_iff)
  obtain a as where "args = a # as" using 4(2) by (cases args) auto
  then have "ExecEvalExpr ec' (rename r (BoolExpr NOT_EXPR args l)) = ExecEvalExpr ec (BoolExpr NOT_EXPR args l)"
    using args by simp
  then show ?case using args by (cases b) (simp_all only: rename.simps eval_simps)
qed simp_all

locale var_mutator =
  fixes mut :: "node \<Rightarrow> 's \<Rightarrow> (node \<times> 's) res" and ren :: "'s \<Rightarrow> pg_var \<Rightarrow> pg_var"
  assumes mut_Var: "mut (Var v) s = Inr (Var (ren s v), s)"
    and mut_Null: "mut Null s = Inr (Null, s)"
    and mut_Const: "mut (Const c) s = Inr (Const c, s)"
    and mut_TList: "mut (TList xs) s = expression_tree_mutator mut (TList xs) s"
    and mut_OpExpr: "mut (OpExpr opno f args) s = expression_tree_mutator mut (OpExpr opno f args) s"
    and mut_BoolExpr: "mut (BoolExpr b args l) s = expression_tree_mutator mut (BoolExpr b args l) s"
    and mut_NullTest: "mut (NullTest t arg r l) s = expression_tree_mutator mut (NullTest t arg r l) s"
begin

lemma list_renames:
  assumes "\<And>x. x \<in> set xs \<Longrightarrow> mut x s = Inr (rename (ren s) x, s)"
  shows "mutate_list mut xs s = Inr (map (rename (ren s)) xs, s)"
proof -
  have "mutate_elems mut xs s = Inr (map (rename (ren s)) xs, s)"
    using assms by (induction xs) simp_all
  then show ?thesis by (simp add: mutate_list_elems [OF mut_Null mut_TList])
qed

lemma renames: "evaluable P n \<Longrightarrow> mut n s = Inr (rename (ren s) n, s)"
proof (induction P n rule: evaluable.induct)
  case (3 P opno f args)
  then have "mutate_list mut args s = Inr (map (rename (ren s)) args, s)"
    by (intro list_renames) (simp add: list_all_iff)
  then show ?case by (simp add: mut_OpExpr expression_tree_mutator_simps)
next
  case (4 P b args l)
  then have "mutate_list mut args s = Inr (map (rename (ren s)) args, s)"
    by (intro list_renames) (simp add: list_all_iff)
  then show ?case by (simp add: mut_BoolExpr expression_tree_mutator_simps)
next
  case (5 P t arg r l)
  then show ?case by (simp add: mut_NullTest expression_tree_mutator_simps)
qed (simp_all add: mut_Var mut_Const)

text \<open>The rewritten condition has the value of the original one in an environment that follows the variables.\<close>

lemma keeps_value:
  assumes "evaluable P n" and "op_function ec' = op_function ec"
    and "\<And>v. P v \<Longrightarrow> var_value ec' (varlevelsup (ren s v)) (varno (ren s v)) (varattno (ren s v)) = var_value ec (varlevelsup v) (varno v) (varattno v)"
  shows "\<exists>n'. mut n s = Inr (n', s) \<and> ExecEvalExpr ec' n' = ExecEvalExpr ec n"
  using renames [OF assms(1), of s] eval_rename [OF assms(2,3) assms(1)] by simp

end

interpretation varquals: var_mutator mutator_varquals
  "\<lambda>ctx v. if varlevelsup v = 0 then v\<lparr>varno := index_of_int (deacrease (int_of_index (varno v)) (list_varno2 ctx))\<rparr> else v"
  by unfold_locales (subst mutator_varquals.simps, simp add: expression_tree_mutator_simps)+

interpretation subrel: var_mutator modif_rel "\<lambda>_ v. v\<lparr>varno := 1\<rparr>"
  by unfold_locales (subst modif_rel.simps, simp add: expression_tree_mutator_simps)+

text \<open>\<open>mutator_conn\<close> on a conjunction of comparisons.\<close>

definition mentions :: "int list \<Rightarrow> node \<Rightarrow> bool" where
  "mentions vs n \<longleftrightarrow> (\<exists>v. Var v \<in> set (case n of OpExpr opno f args \<Rightarrow> args | _ \<Rightarrow> []) \<and> varlevelsup v = 0 \<and> int_of_index (varno v) \<in> set vs)"

fun comparison :: "node \<Rightarrow> bool" where
  "comparison (OpExpr opno f args) = list_all (\<lambda>a. (\<exists>v. a = Var v) \<or> (\<exists>c. a = Const c)) args"
| "comparison _ = False"

lemma mutator_conn_list: "mutate_list mutator_conn xs s = mutate_elems mutator_conn xs s"
  by (rule mutate_list_elems) (simp_all add: mutator_conn.simps [of Null] mutator_conn.simps [of "TList _"])

lemma mentions_simps [simp]:
  "\<not> mentions vs (OpExpr opno f [])"
  "mentions vs (OpExpr opno f (Var v # args)) \<longleftrightarrow>
     varlevelsup v = 0 \<and> int_of_index (varno v) \<in> set vs \<or> mentions vs (OpExpr opno f args)"
  "mentions vs (OpExpr opno f (Const c # args)) \<longleftrightarrow> mentions vs (OpExpr opno f args)"
  by (auto simp: mentions_def)

lemma conn_operands:
  assumes "list_all (\<lambda>a. (\<exists>v. a = Var v) \<or> (\<exists>c. a = Const c)) args"
  shows "mutate_elems mutator_conn args s = Inr (args, s\<lparr>to_remove := to_remove s \<or> mentions (list_varno s) (OpExpr opno f args)\<rparr>)"
  using assms
proof (induction args arbitrary: s)
  case Nil
  then show ?case by (cases s) simp
next
  case (Cons a args)
  show ?case
  proof (cases a)
    case (Var v)
    then show ?thesis
      using Cons by (simp add: mutator_conn.simps [of "Var v"] is_in_list_def is_in_list_from_zero)
  next
    case (Const c)
    then show ?thesis
      using Cons by (simp add: mutator_conn.simps [of "Const c"] expression_tree_mutator_simps)
  qed (use Cons.prems in auto)
qed

lemma conn_comparison:
  assumes "comparison n" and "\<not> to_remove s"
  shows "mutator_conn n s =
    (if mentions (list_varno s) n then Inr (Null, s\<lparr>list_constraint := list_constraint s @ [n]\<rparr>) else Inr (n, s))"
proof -
  obtain opno f args where n: "n = OpExpr opno f args" using assms(1) by (cases n) auto
  have "mutate_elems mutator_conn args s = Inr (args, s\<lparr>to_remove := to_remove s \<or> mentions (list_varno s) n\<rparr>)"
    unfolding n by (rule conn_operands) (use assms(1) n in simp)
  then show ?thesis
    using assms(2) n by (cases s) (simp add: mutator_conn.simps [of "OpExpr opno f args"] expression_tree_mutator_simps mutator_conn_list)
qed

lemma conn_comparisons:
  assumes "list_all comparison ns" and "\<not> to_remove s"
  shows "mutate_elems mutator_conn ns s = Inr (map (\<lambda>n. if mentions (list_varno s) n then Null else n) ns,
           s\<lparr>list_constraint := list_constraint s @ filter (mentions (list_varno s)) ns\<rparr>)"
  using assms
proof (induction ns arbitrary: s)
  case Nil
  show ?case by simp
next
  case (Cons n ns)
  then show ?case by (simp add: conn_comparison)
qed

subsection \<open>Properties\<close>

text \<open>
  C22. When the relations of a component are deleted from the range table in increasing order, the
  renumbering of variables follows: the call returns, relation \<open>x\<close> of the old table is relation
  \<open>deacrease x\<close> of the new one, and the new number is in range.
\<close>

theorem renumber_relations:
  assumes "sorted_wrt (<) lvarno" and "set lvarno \<subseteq> {1..int (length rtable)}"
  shows "\<exists>rt'. delete_rtes 0 rtable lvarno = Inr rt' \<and> length rt' + length lvarno = length rtable \<and>
    (\<forall>x. 1 \<le> x \<longrightarrow> x \<le> int (length rtable) \<longrightarrow> x \<notin> set lvarno \<longrightarrow>
       1 \<le> deacrease x lvarno \<and> deacrease x lvarno \<le> int (length rt') \<and>
       rt' ! nat (deacrease x lvarno - 1) = rtable ! nat (x - 1))"
proof -
  have "\<forall>v \<in> set lvarno. 0 < v \<and> v \<le> 0 + int (length rtable)" using assms(2) by auto
  from delete_rtes_sorted [OF assms(1) this] obtain rt' where
    rt': "delete_rtes 0 rtable lvarno = Inr rt'" "length rt' + length lvarno = length rtable" and
    nth: "\<And>x. 0 < x \<Longrightarrow> x \<le> int (length rtable) \<Longrightarrow> x \<notin> set lvarno \<Longrightarrow>
      rt' ! nat (x - 1 - 0 - int (length (filter (\<lambda>y. y < x) lvarno))) = rtable ! nat (x - 1 - 0)" by auto
  have "distinct lvarno" using assms(1) strict_sorted_iff by blast
  note range = deacrease_range [OF this assms(2)]
  show ?thesis
  proof (intro exI [of _ rt'] conjI allI impI rt')
    fix x assume x: "1 \<le> x" "x \<le> int (length rtable)" "x \<notin> set lvarno"
    show "1 \<le> deacrease x lvarno" "deacrease x lvarno \<le> int (length rt')"
      using range [of x] x rt'(2) by simp_all
    show "rt' ! nat (deacrease x lvarno - 1) = rtable ! nat (x - 1)"
      using nth [of x] x by (simp add: deacrease_eq algebra_simps)
  qed
qed

theorem renumber_relations_witness:
  "\<exists>rt'. delete_rtes 0 [RangeTblRef 7, RangeTblRef 8, RangeTblRef 9] [2] = Inr rt' \<and> length rt' + length [2 :: int] = 3 \<and>
    (\<forall>x. 1 \<le> x \<longrightarrow> x \<le> 3 \<longrightarrow> x \<notin> set [2] \<longrightarrow>
       1 \<le> deacrease x [2] \<and> deacrease x [2] \<le> int (length rt') \<and>
       rt' ! nat (deacrease x [2] - 1) = [RangeTblRef 7, RangeTblRef 8, RangeTblRef 9] ! nat (x - 1))"
  using renumber_relations [of "[2]" "[RangeTblRef 7, RangeTblRef 8, RangeTblRef 9]"] by (simp add: eval_nat_numeral)

definition chain_jointree :: node where
  "chain_jointree = FromExpr [RangeTblRef 1, RangeTblRef 2, RangeTblRef 3]
     (BoolExpr AND_EXPR [OpExpr 96 [] [sample_col 3 0, sample_col 2 0], OpExpr 96 [] [sample_col 1 0, sample_col 1 1]] (-1))"

text \<open>
  C23. The components are lists in the order in which the comparisons joined them, and the deletion
  relies on increasing order: in \<open>SELECT FROM r1, r2, r3 WHERE r3.a = r2.a AND r1.a = outer.a\<close> the
  component is \<open>3, 2\<close>, and of the three relations the second one stays in the range table instead of the
  first, although the number of the first does not change.
\<close>

theorem unsorted_component:
  "components chain_jointree 3 = Inr [[3, 2]] \<and> delete_rtes 0 [a, b, c] [3, 2] = Inr [b] \<and> deacrease 1 [3, 2] = 1"
proof -
  have "join_cond (int 3) chain_jointree"
    by (simp add: chain_jointree_def sample_col_def var_ok_def side_of_def side_ok_def)
  then have "components chain_jointree 3 = Inr [[3, 2]]"
    by (subst components_partition) (simp_all add: chain_jointree_def sample_col_def side_of_def singletons_def
      without_def comp_of_def upt_rec numeral_eq_Suc Let_def)
  then show ?thesis by (simp add: lnth_def Let_def deacrease_def numeral_eq_Suc)
qed

text \<open>
  C24. The range table of the sub-query and the numbers \<open>is_in_list\<close> gives its variables fit together: the
  relations of the component are picked in its order, \<open>is_in_list\<close> is zero exactly for relations outside
  the component, and for one inside it is the position of that relation in the new table.
\<close>

theorem picked_relations:
  assumes "set lvarno \<subseteq> {1..int (length rtable)}"
  shows "\<exists>lrte. pick_rtes rtable lvarno = Inr lrte \<and> length lrte = length lvarno \<and>
    (\<forall>x. is_in_list x lvarno = 0 \<longleftrightarrow> x \<notin> set lvarno) \<and>
    (\<forall>x \<in> set lvarno. 1 \<le> is_in_list x lvarno \<and> is_in_list x lvarno \<le> int (length lrte) \<and>
       lrte ! nat (is_in_list x lvarno - 1) = rtable ! nat (x - 1))"
proof -
  have "is_in_list x lvarno = 0 \<longleftrightarrow> x \<notin> set lvarno" for x by (simp add: is_in_list_def is_in_list_from_zero)
  moreover have "1 \<le> is_in_list x lvarno \<and> is_in_list x lvarno \<le> int (length lvarno) \<and>
      map (\<lambda>v. rtable ! nat (v - 1)) lvarno ! nat (is_in_list x lvarno - 1) = rtable ! nat (x - 1)" if "x \<in> set lvarno" for x
  proof -
    have h: "1 \<le> is_in_list x lvarno" "is_in_list x lvarno < 1 + int (length lvarno)" "lvarno ! nat (is_in_list x lvarno - 1) = x"
      using is_in_list_from_nth [OF that, of 1] by (simp_all add: is_in_list_def)
    then have "nat (is_in_list x lvarno - 1) < length lvarno" by linarith
    then show ?thesis using h by simp
  qed
  ultimately show ?thesis using pick_rtes_eq [OF assms] by simp
qed

theorem picked_relations_witness:
  "\<exists>lrte. pick_rtes [RangeTblRef 7, RangeTblRef 8, RangeTblRef 9] [3, 1] = Inr lrte \<and> length lrte = length [3 :: int, 1] \<and>
    (\<forall>x. is_in_list x [3, 1] = 0 \<longleftrightarrow> x \<notin> set [3, 1]) \<and>
    (\<forall>x \<in> set [3, 1]. 1 \<le> is_in_list x [3, 1] \<and> is_in_list x [3, 1] \<le> int (length lrte) \<and>
       lrte ! nat (is_in_list x [3, 1] - 1) = [RangeTblRef 7, RangeTblRef 8, RangeTblRef 9] ! nat (x - 1))"
  by (rule picked_relations) simp

text \<open>
  \<open>substract\<close> cuts a given number of entries off the end of a \<open>FROM\<close> list but always keeps the first
  one, so a query whose relations all move still ranges over one relation; on an empty list it
  dereferences the null pointer.
\<close>

theorem substract_keeps_one:
  "substract input nb = (if input = [] then Inl Segv else Inr (take (max 1 (nat (int (length input) - nb))) input))"
  by (simp add: substract_def substract_loop_take)

text \<open>
  C21. \<open>mutator_varquals\<close> does not change the meaning of a condition that stays in the query: on a condition
  over relations outside the component it returns, and the result has the same value as the
  original in every environment in which the relations have their new numbers.
\<close>

theorem mutator_varquals_equivalent:
  assumes "evaluable (\<lambda>v. varlevelsup v = 0 \<longrightarrow> varno v < 2 ^ 31 \<and> int (varno v) \<in> {1..n} - set lvarno) q"
    and "distinct lvarno" and "set lvarno \<subseteq> {1..n}" and "list_varno2 ctx = lvarno"
    and "op_function ec' = op_function ec"
    and "\<forall>x a. int x \<in> {1..n} - set lvarno \<longrightarrow> var_value ec' 0 (nat (deacrease (int x) lvarno)) a = var_value ec 0 x a"
    and "\<forall>l x a. 0 < l \<longrightarrow> var_value ec' l x a = var_value ec l x a"
  shows "\<exists>q'. mutator_varquals q ctx = Inr (q', ctx) \<and> ExecEvalExpr ec' q' = ExecEvalExpr ec q"
proof (rule varquals.keeps_value [OF assms(1,5)])
  fix v assume v: "varlevelsup v = 0 \<longrightarrow> varno v < 2 ^ 31 \<and> int (varno v) \<in> {1..n} - set lvarno"
  let ?r = "if varlevelsup v = 0 then v\<lparr>varno := index_of_int (deacrease (int_of_index (varno v)) (list_varno2 ctx))\<rparr> else v"
  show "var_value ec' (varlevelsup ?r) (varno ?r) (varattno ?r) = var_value ec (varlevelsup v) (varno v) (varattno v)"
  proof (cases "varlevelsup v = 0")
    case True
    then have lt: "varno v < 2 ^ 31" and x: "int (varno v) \<in> {1..n} - set lvarno" using v by auto
    have idx: "int_of_index (varno v) = int (varno v)" using lt by (simp add: int_of_index_def)
    have "1 \<le> deacrease (int (varno v)) lvarno" using deacrease_range(1) [OF assms(2,3)] x by simp
    moreover have "deacrease (int (varno v)) lvarno < 2 ^ 32" using lt by (simp add: deacrease_eq)
    ultimately have "index_of_int (deacrease (int (varno v)) lvarno) = nat (deacrease (int (varno v)) lvarno)"
      by (simp add: index_of_int_id)
    then show ?thesis using True idx x assms(4,6) by simp
  qed (use assms(7) in simp)
qed

definition value_of :: "(nat \<Rightarrow> datum) \<Rightarrow> econtext" where
  "value_of f = \<lparr>var_value = \<lambda>l x a. if l = 0 then Some (f x) else Some 0,
     op_function = \<lambda>opno ds. Some (BoolGetDatum (hd ds = last ds)), other_value = \<lambda>n. None\<rparr>"

theorem mutator_varquals_equivalent_witness:
  "\<exists>q'. mutator_varquals (OpExpr 96 [] [sample_col 1 0, sample_col 3 0]) (make_temp_context_connex_rew2 [2]) =
      Inr (q', make_temp_context_connex_rew2 [2]) \<and>
    ExecEvalExpr (value_of (\<lambda>x. if x = 1 then 10 else 30)) q' =
    ExecEvalExpr (value_of (\<lambda>x. int x * 10)) (OpExpr 96 [] [sample_col 1 0, sample_col 3 0])"
proof (rule mutator_varquals_equivalent [where n = 3 and lvarno = "[2]"])
  show "\<forall>x a. int x \<in> {1..3} - set [2] \<longrightarrow> var_value (value_of (\<lambda>x. if x = 1 then 10 else 30)) 0 (nat (deacrease (int x) [2])) a =
      var_value (value_of (\<lambda>x. int x * 10)) 0 x a"
    by (auto simp: value_of_def deacrease_def)
qed (simp_all add: sample_col_def make_temp_context_connex_rew2_def value_of_def)

text \<open>
  C27. \<open>modif_rel\<close> does not change the meaning of a constraint that moves into the sub-query built for its
  relation: on a condition over relation \<open>k\<close> alone it returns, and the result has the same value as
  the original when that relation is relation 1.
\<close>

theorem modif_rel_equivalent:
  assumes "evaluable (\<lambda>v. varlevelsup v = 0 \<and> varno v = k) q" and "op_function ec' = op_function ec"
    and "\<forall>a. var_value ec' 0 1 a = var_value ec 0 k a"
  shows "\<exists>q'. modif_rel q ctx = Inr (q', ctx) \<and> ExecEvalExpr ec' q' = ExecEvalExpr ec q"
  by (rule subrel.keeps_value [OF assms(1,2)]) (use assms(3) in simp)

theorem modif_rel_equivalent_witness:
  "\<exists>q'. modif_rel (OpExpr 96 [] [sample_col 3 0, sample_col 3 0]) () = Inr (q', ()) \<and>
    ExecEvalExpr (value_of (\<lambda>x. 5)) q' = ExecEvalExpr (value_of (\<lambda>x. if x = 3 then 5 else 0)) (OpExpr 96 [] [sample_col 3 0, sample_col 3 0])"
  by (rule modif_rel_equivalent [where k = 3]) (simp_all add: sample_col_def value_of_def)

end
