(* ===== verification/Exist_Rewrite.thy ===== *)
theory Exist_Rewrite
  imports Renumbering
begin

section \<open>What the optimisation passes do to conditions\<close>

text \<open>
  The conditions that \<open>rewrite_connexe\<close> moves into the \<open>EXISTS\<close> of a component and the constraints that
  \<open>my_modifier_self\<close> collects for the range table.
\<close>

subsection \<open>Conditions of a component\<close>

text \<open>
  C25. On a conjunction of comparisons \<open>mutator_conn\<close> returns, and splits it: the comparisons that mention a
  relation of the component are collected, in order, and a null pointer is left in the place of each
  of them; the others stay as they are.
\<close>

theorem mutator_conn_splits:
  assumes "list_all comparison args" and "\<not> to_remove ctx"
  shows "mutator_conn (BoolExpr AND_EXPR args l) ctx =
    Inr (BoolExpr AND_EXPR (map (\<lambda>n. if mentions (list_varno ctx) n then Null else n) args) l,
         ctx\<lparr>list_constraint := list_constraint ctx @ filter (mentions (list_varno ctx)) args\<rparr>)"
  using conn_comparisons [OF assms]
  by (simp add: mutator_conn.simps [of "BoolExpr _ _ _"] expression_tree_mutator_simps mutator_conn_list)

theorem mutator_conn_splits_witness:
  "mutator_conn (BoolExpr AND_EXPR [OpExpr 96 [] [sample_col 1 0, sample_col 3 0], OpExpr 96 [] [sample_col 2 0]] 4)
      (make_temp_context_connex_rew [3]) =
    Inr (BoolExpr AND_EXPR [Null, OpExpr 96 [] [sample_col 2 0]] 4,
         (make_temp_context_connex_rew [3])\<lparr>list_constraint := [OpExpr 96 [] [sample_col 1 0, sample_col 3 0]]\<rparr>)"
  using mutator_conn_splits [of "[OpExpr 96 [] [sample_col 1 0, sample_col 3 0], OpExpr 96 [] [sample_col 2 0]]"
      "make_temp_context_connex_rew [3]" 4]
  by (simp add: sample_col_def make_temp_context_connex_rew_def int_of_index_def)


end
