(* ===== verification/Self_Correct.thy ===== *)
theory Self_Correct
  imports Renumbering
begin

section \<open>Constraints on one relation\<close>

text \<open>
  What \<open>my_modifier_self\<close> takes out of a condition, how \<open>add_constrain\<close> keeps it, and the sub-query that
  \<open>rewrite_self\<close> makes of it.
\<close>

subsection \<open>Comparisons\<close>

fun vars_of :: "node list \<Rightarrow> pg_var list" where
  "vars_of [] = []"
| "vars_of (Var v # ns) = v # vars_of ns"
| "vars_of (_ # ns) = vars_of ns"

definition rel_of :: "pg_var \<Rightarrow> nat \<times> nat" where
  "rel_of v = (varno v, varlevelsup v)"

text \<open>A comparison has at most two variables; its relation is that of its variables, when they agree.\<close>

fun rel :: "node \<Rightarrow> (nat \<times> nat) option" where
  "rel (OpExpr opno f args) =
     (case vars_of args of
        [v] \<Rightarrow> Some (rel_of v)
      | [v, w] \<Rightarrow> if rel_of v = rel_of w then Some (rel_of v) else None
      | _ \<Rightarrow> None)"
| "rel _ = None"

definition small :: "pg_var \<Rightarrow> bool" where
  "small v \<longleftrightarrow> varno v < 2 ^ 31 \<and> varlevelsup v < 2 ^ 31"

fun compares :: "node \<Rightarrow> bool" where
  "compares (OpExpr opno f args) =
     (list_all (\<lambda>a. (\<exists>v. a = Var v \<and> small v) \<or> (\<exists>c. a = Const c)) args \<and> length (vars_of args) \<le> 2)"
| "compares _ = False"

lemma self_list: "mutate_list my_modifier_self xs c = mutate_elems my_modifier_self xs c"
  by (rule mutate_list_elems) (simp_all add: my_modifier_self.simps [of Null] my_modifier_self.simps [of "TList _"])

lemma self_operands:
  assumes "list_all (\<lambda>a. (\<exists>v. a = Var v \<and> small v) \<or> (\<exists>c. a = Const c)) args"
  shows "mutate_elems my_modifier_self args c = Inr (args, fold self_var (vars_of args) c)"
  using assms
proof (induction args arbitrary: c)
  case (Cons a args)
  then show ?case
    by (cases a) (auto simp: my_modifier_self.simps [of "Var _"] my_modifier_self.simps [of "Const _"] expression_tree_mutator_simps)
qed simp

lemma small_index:
  "small v \<Longrightarrow> int_of_index (varno v) = int (varno v) \<and> int_of_index (varlevelsup v) = int (varlevelsup v)"
  by (simp add: small_def int_of_index_def)

lemma index_eq_small: "x < 2 ^ 31 \<Longrightarrow> y < 2 ^ 31 \<Longrightarrow> index_eq x (int y) \<longleftrightarrow> x = y"
  by (auto simp: index_eq_def index_of_int_def)

text \<open>Between conditions: nothing is pending.\<close>

definition idle :: "context_optimizer_self \<Rightarrow> bool" where
  "idle c \<longleftrightarrow> \<not> disjunction c \<and> \<not> equality c \<and> \<not> add c \<and> varno_to_add_eq c = -1 \<and> varlevelsup_to_add_eq c = -1"

lemma self_vars:
  assumes "idle c" and "length vs \<le> 2" and "\<forall>v \<in> set vs. small v"
  shows "\<exists>c'. fold self_var vs (c\<lparr>equality := True\<rparr>) = c' \<and> equality c' \<and> \<not> disjunction c' \<and>
    already_constrain_rel c' = already_constrain_rel c \<and>
    (add c' \<longleftrightarrow> vs \<noteq> [] \<and> (\<forall>w \<in> set vs. rel_of (hd vs) = rel_of w)) \<and>
    (vs \<noteq> [] \<longrightarrow> varno_to_add c' = int (varno (hd vs)) \<and> varlevelsup_to_add c' = int (varlevelsup (hd vs)))"
proof -
  consider "vs = []" | v where "vs = [v]" | v w where "vs = [v, w]"
    using assms(2) by (cases vs; cases "tl vs") (auto simp: Suc_le_eq)
  then show ?thesis
  proof cases
    case 3
    have s: "small v" "small w" using assms(3) 3 by simp_all
    have "index_eq (varno w) (int (varno v)) \<longleftrightarrow> varno v = varno w"
      "index_eq (varlevelsup w) (int (varlevelsup v)) \<longleftrightarrow> varlevelsup v = varlevelsup w"
      using s by (simp_all add: small_def index_eq_small eq_commute)
    then show ?thesis
      using 3 assms(1) small_index [OF s(1)] small_index [OF s(2)]
      by (auto simp: self_var_def idle_def Let_def rel_of_def)
  qed (use assms(1,3) small_index in \<open>auto simp: self_var_def idle_def Let_def rel_of_def\<close>)
qed

lemma rel_vars:
  assumes "length (vars_of args) \<le> 2"
  shows "rel (OpExpr opno f args) =
    (if vars_of args \<noteq> [] \<and> (\<forall>w \<in> set (vars_of args). rel_of (hd (vars_of args)) = rel_of w)
     then Some (rel_of (hd (vars_of args))) else None)"
proof -
  consider "vars_of args = []" | v where "vars_of args = [v]" | v w where "vars_of args = [v, w]"
    using assms by (cases "vars_of args"; cases "tl (vars_of args)") (auto simp: Suc_le_eq)
  then show ?thesis by cases auto
qed

lemma rel_SomeD:
  assumes "length (vars_of args) \<le> 2" and "rel (OpExpr opno f args) = Some r"
  shows "vars_of args \<noteq> []" and "r = rel_of (hd (vars_of args))" and "\<forall>w \<in> set (vars_of args). r = rel_of w"
  using assms(2) unfolding rel_vars [OF assms(1)] by (simp_all split: if_split_asm)

lemma small_vars: "compares (OpExpr opno f args) \<Longrightarrow> \<forall>v \<in> set (vars_of args). small v"
  by (induction args rule: vars_of.induct) auto

text \<open>A constraint is kept apart when no constraint on its relation was kept before.\<close>

lemma temp_list: "mutate_list temp_modifier_add xs c = mutate_elems temp_modifier_add xs c"
  by (rule mutate_list_elems) (simp_all add: temp_modifier_add.simps [of Null] temp_modifier_add.simps [of "TList _"])

lemma temp_operands:
  assumes "list_all (\<lambda>a. (\<exists>v. a = Var v \<and> small v) \<or> (\<exists>c. a = Const c)) args"
    and "\<forall>v \<in> set (vars_of args). \<not> (index_eq (varlevelsup v) (tvarlevelsup_to_add c) \<and> index_eq (varno v) (tvarno_to_add c))"
  shows "mutate_elems temp_modifier_add args c = Inr (args, c)"
  using assms
proof (induction args)
  case (Cons a args)
  then show ?case
    by (cases a) (auto simp: temp_modifier_add.simps [of "Var _"] temp_modifier_add.simps [of "Const _"] expression_tree_mutator_simps)
qed simp

lemma temp_other:
  assumes "compares n" and "rel n = Some (k, j)" and "(k, j) \<noteq> (no, lv)" and "no < 2 ^ 31" and "lv < 2 ^ 31"
    and "tvarno_to_add c = int no" and "tvarlevelsup_to_add c = int lv"
  shows "temp_modifier_add n c = Inr (n, c)"
proof -
  obtain opno f args where n: "n = OpExpr opno f args" using assms(1) by (cases n) auto
  have all: "\<forall>w \<in> set (vars_of args). (k, j) = rel_of w"
    using rel_SomeD(3) [of args opno f "(k, j)"] assms(1,2) n by simp
  have "\<not> (index_eq (varlevelsup v) (int lv) \<and> index_eq (varno v) (int no))" if "v \<in> set (vars_of args)" for v
  proof -
    have "small v" "rel_of v = (k, j)" using small_vars [of opno f args] assms(1) n that all by simp_all
    then show ?thesis using assms(3-5) by (auto simp: index_eq_small small_def rel_of_def)
  qed
  then have "mutate_elems temp_modifier_add args c = Inr (args, c)"
    using assms(1,6,7) n by (intro temp_operands) auto
  then show ?thesis
    using n by (simp add: temp_modifier_add.simps [of "OpExpr opno f args"] expression_tree_mutator_simps temp_list)
qed

lemma add_loop_apart:
  assumes "\<forall>t \<in> set ts. temp_modifier_add t c = Inr (t, c)" and "\<not> to_add c" and "\<not> already_add c"
  shows "add_loop ts acc c = Inr (acc @ ts, c)"
  using assms by (induction ts arbitrary: acc) simp_all

lemma add_constrain_apart:
  assumes "\<forall>t \<in> set ts. compares t \<and> (\<exists>r. rel t = Some r \<and> r \<noteq> (no, lv))" and "no < 2 ^ 31" "lv < 2 ^ 31"
  shows "add_constrain ts (make_temp_context n (int no) (int lv)) = Inr (ts @ [n])"
proof -
  let ?c = "make_temp_context n (int no) (int lv)"
  have "temp_modifier_add t ?c = Inr (t, ?c)" if t: "t \<in> set ts" for t
  proof -
    obtain k j where "compares t" "rel t = Some (k, j)" "(k, j) \<noteq> (no, lv)" using assms(1) t by auto
    then show ?thesis using assms(2,3) by (rule temp_other) (simp_all add: make_temp_context_def)
  qed
  then have "add_loop ts [] ?c = Inr (ts, ?c)"
    using add_loop_apart [of ts ?c "[]"] by (simp add: make_temp_context_def)
  then show ?thesis by (simp add: add_constrain_def make_temp_context_def)
qed

text \<open>One comparison, and a conjunction of them.\<close>

lemma self_comparison:
  assumes n: "compares n" and c: "idle c"
    and apart: "\<forall>r. rel n = Some r \<longrightarrow> (\<forall>t \<in> set (already_constrain_rel c). compares t \<and> (\<exists>r'. rel t = Some r' \<and> r' \<noteq> r))"
  shows "\<exists>c'. my_modifier_self n c = Inr (if rel n = None then n else Null, c') \<and> idle c' \<and>
    already_constrain_rel c' = already_constrain_rel c @ (if rel n = None then [] else [n])"
proof -
  obtain opno f args where eq: "n = OpExpr opno f args" using n by (cases n) auto
  define c1 where "c1 = fold self_var (vars_of args) (c\<lparr>equality := True\<rparr>)"
  define c2 where "c2 = c1\<lparr>equality := False, varno_to_add_eq := -1, varlevelsup_to_add_eq := -1\<rparr>"
  have len: "length (vars_of args) \<le> 2" and ops: "list_all (\<lambda>a. (\<exists>v. a = Var v \<and> small v) \<or> (\<exists>c. a = Const c)) args"
    using n eq by simp_all
  note small = small_vars [OF n [unfolded eq]]
  have v: "\<not> disjunction c1" "already_constrain_rel c1 = already_constrain_rel c"
    "add c1 \<longleftrightarrow> rel n \<noteq> None"
    "vars_of args \<noteq> [] \<longrightarrow> varno_to_add c1 = int (varno (hd (vars_of args))) \<and> varlevelsup_to_add c1 = int (varlevelsup (hd (vars_of args)))"
    using self_vars [OF c len small] rel_vars [OF len, of opno f] unfolding c1_def eq by auto
  have call: "my_modifier_self n c = (if add c2 \<and> \<not> disjunction c2 then self_take n c2 else Inr (n, c2))"
    using self_operands [OF ops, of "c\<lparr>equality := True\<rparr>"] eq
    by (simp add: my_modifier_self.simps [of "OpExpr opno f args"] expression_tree_mutator_simps self_list c1_def c2_def Let_def)
  show ?thesis
  proof (cases "rel n")
    case None
    then show ?thesis using call v by (auto simp: c2_def idle_def)
  next
    case (Some r)
    then have r: "vars_of args \<noteq> []" "r = rel_of (hd (vars_of args))"
      using rel_SomeD(1,2) [OF len, of opno f r] eq by simp_all
    have s: "small (hd (vars_of args))" using small r(1) by simp
    have "add_constrain (already_constrain_rel c) (make_temp_context n (int (fst r)) (int (snd r))) = Inr (already_constrain_rel c @ [n])"
      by (rule add_constrain_apart) (use apart Some s r(2) in \<open>auto simp: small_def rel_of_def\<close>)
    then show ?thesis
      using call v Some r by (auto simp: self_take_def c2_def idle_def rel_of_def)
  qed
qed

abbreviation on_one :: "node \<Rightarrow> bool" where
  "on_one n \<equiv> rel n \<noteq> None"

lemma self_conjunction:
  assumes "list_all compares args" and "idle c" and "\<forall>t \<in> set (already_constrain_rel c). compares t \<and> on_one t"
    and "distinct (map rel (already_constrain_rel c @ filter on_one args))"
  shows "\<exists>c'. mutate_elems my_modifier_self args c = Inr (map (\<lambda>n. if on_one n then Null else n) args, c') \<and>
    idle c' \<and> already_constrain_rel c' = already_constrain_rel c @ filter on_one args"
  using assms
proof (induction args arbitrary: c)
  case Nil
  then show ?case by simp
next
  case (Cons n args)
  have n: "compares n" using Cons.prems(1) by simp
  have "\<forall>r. rel n = Some r \<longrightarrow> (\<forall>t \<in> set (already_constrain_rel c). compares t \<and> (\<exists>r'. rel t = Some r' \<and> r' \<noteq> r))"
  proof (intro allI impI ballI)
    fix r t assume r: "rel n = Some r" and t: "t \<in> set (already_constrain_rel c)"
    have "rel t \<in> rel ` set (already_constrain_rel c)" using t by simp
    then have "rel t \<noteq> rel n" using Cons.prems(4) r by auto
    then show "compares t \<and> (\<exists>r'. rel t = Some r' \<and> r' \<noteq> r)" using Cons.prems(3) t r by auto
  qed
  from self_comparison [OF n Cons.prems(2) this] obtain c1 where
    c1: "my_modifier_self n c = Inr (if rel n = None then n else Null, c1)" "idle c1"
      "already_constrain_rel c1 = already_constrain_rel c @ (if rel n = None then [] else [n])" by blast
  have "list_all compares args" "\<forall>t \<in> set (already_constrain_rel c1). compares t \<and> on_one t"
    "distinct (map rel (already_constrain_rel c1 @ filter on_one args))"
    using Cons.prems n c1(3) by (auto split: if_splits)
  from Cons.IH [OF this(1) c1(2) this(2,3)] show ?case using c1(1,3) by auto
qed

lemma idle_start: "idle make_context_optimizer_self" "already_constrain_rel make_context_optimizer_self = []"
  by (simp_all add: idle_def make_context_optimizer_self_def)

abbreviation remaining :: "node list \<Rightarrow> node list" where
  "remaining args \<equiv> map (\<lambda>n. if on_one n then Null else n) args"

lemma self_and:
  assumes "list_all compares args" and "distinct (map rel (filter on_one args))"
  shows "\<exists>c. my_modifier_self (FromExpr (map RangeTblRef is) (BoolExpr AND_EXPR args l)) make_context_optimizer_self =
    Inr (FromExpr (map RangeTblRef is) (BoolExpr AND_EXPR (remaining args) l), c) \<and>
    already_constrain_rel c = filter on_one args"
proof -
  let ?c = make_context_optimizer_self
  have refs: "mutate_elems my_modifier_self (map RangeTblRef is) c = Inr (map RangeTblRef is, c)" for c
    by (induction "is") (simp_all add: my_modifier_self.simps [of "RangeTblRef _"] expression_tree_mutator_simps)
  obtain c where "mutate_elems my_modifier_self args ?c = Inr (remaining args, c)" "already_constrain_rel c = filter on_one args"
    using self_conjunction [OF assms(1) idle_start(1)] assms(2) idle_start(2) by auto
  then show ?thesis
    using refs by (simp add: my_modifier_self.simps [of "FromExpr _ _"] my_modifier_self.simps [of "BoolExpr _ _ _"]
      expression_tree_mutator_simps self_list)
qed

subsection \<open>The sub-query of a relation\<close>

fun column_entry :: "node \<Rightarrow> bool" where
  "column_entry (TargetEntry (Var v) r f) = True"
| "column_entry _ = False"

text \<open>The entries of a target list that are columns of relation \<open>k\<close>, numbered from \<open>i\<close>.\<close>

fun own_entries :: "nat \<Rightarrow> int \<Rightarrow> node list \<Rightarrow> node list" where
  "own_entries k i [] = []"
| "own_entries k i (TargetEntry (Var v) r f # ts) =
     (if varno v = k then TargetEntry (Var (v\<lparr>varno := 1\<rparr>)) i f # own_entries k (i + 1) ts else own_entries k i ts)"
| "own_entries k i (_ # ts) = own_entries k i ts"

lemma target_loop_own:
  assumes "list_all column_entry ts" and "rvarno_to_add c = int k" and "\<not> rto_add c" and "k < 2 ^ 31"
  shows "target_loop rto_add (rto_add_update (\<lambda>_. False)) modif_targetEntry ts i acc c = Inr (acc @ own_entries k i ts, c)"
  using assms
proof (induction ts arbitrary: i acc)
  case (Cons t ts)
  obtain v r f where t: "t = TargetEntry (Var v) r f" using Cons.prems(1) by (cases t rule: column_entry.cases) auto
  have ix: "index_eq (varno v) (int k) \<longleftrightarrow> varno v = k" using assms(4) by (simp add: index_eq_def index_of_int_def)
  have "modif_targetEntry t c = (if varno v = k then Inr (TargetEntry (Var (v\<lparr>varno := 1\<rparr>)) r f, c\<lparr>rto_add := True\<rparr>)
      else Inr (TargetEntry Null r f, c))"
    using assms(2) ix t by (simp add: modif_targetEntry.simps [of "TargetEntry _ _ _"] modif_targetEntry.simps [of "Var _"]
      expression_tree_mutator_def)
  moreover have same: "c\<lparr>rto_add := False\<rparr> = c" using assms(3) by (cases c) simp
  have "target_loop rto_add (rto_add_update (\<lambda>_. False)) modif_targetEntry ts j a (c\<lparr>rto_add := False\<rparr>) =
      Inr (a @ own_entries k j ts, c)" for j a
    unfolding same using Cons by simp
  ultimately show ?case using Cons t assms(3) by simp
qed simp

lemma modif_targetEntry_own:
  assumes "list_all column_entry ts" and "rvarno_to_add c = int k" and "\<not> rto_add c" and "k < 2 ^ 31"
  shows "modif_targetEntry (list_node ts) c = Inr (list_node (own_entries k 1 ts), c)"
  using target_loop_own [OF assms, of 1 "[]"]
  by (cases ts) (simp_all add: modif_targetEntry.simps [of Null] modif_targetEntry.simps [of "TList _"])

lemma init_rel_compares:
  assumes "compares n" and "rel n = Some (k, j)"
  shows "\<exists>c. init_rel n make_temp_context_rewrite = Inr (True, c) \<and> rvarno_to_add c = int k \<and> \<not> rto_add c \<and> k < 2 ^ 31"
proof -
  obtain opno f args where n: "n = OpExpr opno f args" using assms(1) by (cases n) auto
  have ops: "list_all (\<lambda>a. (\<exists>v. a = Var v \<and> small v) \<or> (\<exists>c. a = Const c)) args" using assms(1) n by simp
  have r: "vars_of args \<noteq> []" "(k, j) = rel_of (hd (vars_of args))"
    using rel_SomeD(1,2) [of args opno f "(k, j)"] assms n by simp_all
  have s: "small (hd (vars_of args))" using small_vars [of opno f args] assms(1) n r(1) by simp
  have walk: "vars_of as \<noteq> [] \<Longrightarrow> list_all (\<lambda>a. (\<exists>v. a = Var v \<and> small v) \<or> (\<exists>c. a = Const c)) as \<Longrightarrow>
    walk_list init_rel (map Inr as) c = Inr (True, c\<lparr>rvarno_to_add := int_of_index (varno (hd (vars_of as))),
      rvarlevelsup_to_add := int_of_index (varlevelsup (hd (vars_of as)))\<rparr>)" for as c
    by (induction as rule: vars_of.induct)
      (auto simp: init_rel.simps [of "Var _"] init_rel.simps [of "Const _"] expression_tree_walker_simps)
  show ?thesis
    using walk [OF r(1) ops] small_index [OF s] s r(2) n
    by (simp add: init_rel.simps [of "OpExpr _ _ _"] expression_tree_walker_simps make_temp_context_rewrite_def rel_of_def small_def)
qed

lemma compares_evaluable: "compares n \<Longrightarrow> evaluable (\<lambda>_. True) n"
  by (cases n) (auto simp: list_all_iff)

fun named_entry :: "node \<Rightarrow> bool" where
  "named_entry (RangeTblEntry kind relid sub al (Some e) f) = True"
| "named_entry _ = False"

text \<open>The range-table entry that replaces \<open>old\<close>: a sub-query over \<open>old\<close> with the constraint \<open>n\<close>.\<close>

fun sub_entry :: "nat \<Rightarrow> node list \<Rightarrow> nat \<Rightarrow> node \<Rightarrow> node \<Rightarrow> node" where
  "sub_entry j tgt k n (RangeTblEntry kind relid sub al (Some e) f) =
     RangeTblEntry RTE_SUBQUERY relid
       (create_from_query (RangeTblEntry kind relid sub al (Some e) f) (rename (\<lambda>v. v\<lparr>varno := 1\<rparr>) n) (own_entries k 1 tgt))
       (Some (makeAlias (rel_name j) [])) (Some (makeAlias (rel_name j) (colnames e))) f"
| "sub_entry j tgt k n old = old"

lemma sub_entry_named: "named_entry e \<Longrightarrow> named_entry (sub_entry j tgt k n e)"
  by (cases e rule: named_entry.cases) auto

lemma to_subquery_entry:
  "named_entry e \<Longrightarrow>
   to_subquery j (create_from_query e (rename (\<lambda>v. v\<lparr>varno := 1\<rparr>) n) (own_entries k 1 tgt)) e = Inr (sub_entry j tgt k n e)"
  by (cases e rule: named_entry.cases) auto

lemma rewrite_self_step:
  assumes "list_all column_entry tgt" and "list_all named_entry rt" and "compares t" and "rel t = Some (Suc k, j)" and "k < length rt"
  shows "rewrite_self tgt rt (t # ts) i = rewrite_self tgt (rt[k := sub_entry (Suc i) tgt (Suc k) t (rt ! k)]) ts (Suc i)"
proof -
  obtain c where c: "init_rel t make_temp_context_rewrite = Inr (True, c)" "rvarno_to_add c = int (Suc k)" "\<not> rto_add c"
    "Suc k < 2 ^ 31" using init_rel_compares [OF assms(3,4)] by blast
  have "modif_targetEntry (list_node tgt) c = Inr (list_node (own_entries (Suc k) 1 tgt), c)"
    by (rule modif_targetEntry_own [OF assms(1) c(2-4)])
  moreover have "modif_rel t () = Inr (rename (\<lambda>v. v\<lparr>varno := 1\<rparr>) t, ())"
    using subrel.renames [OF compares_evaluable [OF assms(3)]] by simp
  moreover have "lnth rt (rvarno_to_add c - 1) = Inr (rt ! k)" "nat (rvarno_to_add c - 1) = k"
    using c(2) assms(5) by (simp_all add: lnth_def)
  moreover have "named_entry (rt ! k)" using assms(2,5) by (simp add: list_all_length)
  note to_subquery_entry [OF this, of "Suc i" t "Suc k" tgt]
  ultimately show ?thesis using c(1) by simp
qed

lemma rewrite_self_entries:
  assumes "list_all column_entry tgt" and "list_all named_entry rt"
    and "\<forall>t \<in> set ts. compares t \<and> (\<exists>k < length rt. rel t = Some (Suc k, 0))" and "distinct (map rel ts)"
  shows "\<exists>rt'. rewrite_self tgt rt ts i = Inr (rt', i + length ts) \<and> length rt' = length rt \<and>
    (\<forall>k < length rt. if Some (Suc k, 0) \<in> rel ` set ts
       then \<exists>t \<in> set ts. \<exists>j. rel t = Some (Suc k, 0) \<and> rt' ! k = sub_entry j tgt (Suc k) t (rt ! k)
       else rt' ! k = rt ! k)"
  using assms
proof (induction ts arbitrary: rt i)
  case Nil
  then show ?case by simp
next
  case (Cons t ts)
  obtain k where k: "k < length rt" "rel t = Some (Suc k, 0)" "compares t" using Cons.prems(3) by auto
  define rt1 where "rt1 = rt[k := sub_entry (Suc i) tgt (Suc k) t (rt ! k)]"
  have "list_all named_entry rt1" "length rt1 = length rt"
    using Cons.prems(2) k(1) sub_entry_named by (auto simp: rt1_def list_all_length nth_list_update)
  with Cons.IH [of rt1 "Suc i"] Cons.prems obtain rt' where
    rt': "rewrite_self tgt rt1 ts (Suc i) = Inr (rt', Suc i + length ts)" "length rt' = length rt1" and
    nth: "\<And>x. x < length rt1 \<Longrightarrow> if Some (Suc x, 0) \<in> rel ` set ts
       then \<exists>t \<in> set ts. \<exists>j. rel t = Some (Suc x, 0) \<and> rt' ! x = sub_entry j tgt (Suc x) t (rt1 ! x)
       else rt' ! x = rt1 ! x" by auto
  have new: "Some (Suc k, 0) \<notin> rel ` set ts" using Cons.prems(4) k(2) by auto
  have "if Some (Suc x, 0) \<in> rel ` set (t # ts)
       then \<exists>s \<in> set (t # ts). \<exists>j. rel s = Some (Suc x, 0) \<and> rt' ! x = sub_entry j tgt (Suc x) s (rt ! x)
       else rt' ! x = rt ! x" if x: "x < length rt" for x
  proof (cases "x = k")
    case True
    have "rt' ! x = sub_entry (Suc i) tgt (Suc k) t (rt ! k)"
      using nth [of x] True new x rt'(2) by (simp add: rt1_def)
    then show ?thesis using True k(2) by auto
  next
    case False
    then have "rt1 ! x = rt ! x" "Some (Suc x, 0) \<noteq> rel t" using k(2) by (simp_all add: rt1_def)
    then show ?thesis using nth [of x] x \<open>length rt1 = length rt\<close> by (auto split: if_splits)
  qed
  moreover have "rewrite_self tgt rt (t # ts) i = Inr (rt', i + length (t # ts))"
    using rewrite_self_step [OF Cons.prems(1,2) k(3,2,1)] rt'(1) by (simp add: rt1_def)
  ultimately show ?case
    using rt'(2) \<open>length rt1 = length rt\<close> by (intro exI [of _ rt'] conjI allI impI) (assumption | simp only:)+
qed

subsection \<open>Properties\<close>


definition sample_rte :: "nat \<Rightarrow> node" where
  "sample_rte relid = RangeTblEntry RTE_RELATION relid Null None (Some (Alias ''r'' [''x''])) []"


text \<open>A constraint on the relation of a kept one.\<close>

lemma temp_same:
  assumes "compares n" and "rel n = Some (k, j)" and "tvarno_to_add c = int k" and "tvarlevelsup_to_add c = int j"
  shows "temp_modifier_add n c = Inr (n, c\<lparr>to_add := True\<rparr>)"
proof -
  obtain opno f args where n: "n = OpExpr opno f args" using assms(1) by (cases n) auto
  have ops: "list_all (\<lambda>a. (\<exists>v. a = Var v \<and> small v) \<or> (\<exists>c. a = Const c)) args" using assms(1) n by simp
  have r: "vars_of args \<noteq> []" "\<forall>w \<in> set (vars_of args). (k, j) = rel_of w"
    using rel_SomeD(1,3) [of args opno f "(k, j)"] assms(1,2) n by simp_all
  have "mutate_elems temp_modifier_add as c = Inr (as, if vars_of as = [] then c else c\<lparr>to_add := True\<rparr>)"
    if "list_all (\<lambda>a. (\<exists>v. a = Var v \<and> small v) \<or> (\<exists>c. a = Const c)) as" "\<forall>w \<in> set (vars_of as). (k, j) = rel_of w"
      "tvarno_to_add c = int k" "tvarlevelsup_to_add c = int j" for as c
    using that
  proof (induction as arbitrary: c)
    case (Cons a as)
    consider v where "a = Var v" "small v" | d where "a = Const d" using Cons.prems(1) by auto
    then show ?case
    proof cases
      case 1
      then have "index_eq (varno v) (int k)" "index_eq (varlevelsup v) (int j)"
        using Cons.prems(2) by (simp_all add: index_eq_small small_def rel_of_def)
      then show ?thesis using Cons 1 by (simp add: temp_modifier_add.simps [of "Var _"])
    next
      case 2
      then show ?thesis using Cons by (simp add: temp_modifier_add.simps [of "Const _"] expression_tree_mutator_simps)
    qed
  qed simp
  from this [OF ops r(2) assms(3,4)] show ?thesis
    using r(1) n by (simp add: temp_modifier_add.simps [of "OpExpr _ _ _"] expression_tree_mutator_simps temp_list)
qed

text \<open>
  C28. Constraints on one relation are grouped: the second one is conjoined with the first. The third one
  turns the conjunction into the bare list of its arguments, which is no condition any more.
\<close>

theorem add_constrain_groups:
  assumes "compares a" and "rel a = Some (k, j)" and "compares b" and "rel b = Some (k, j)"
  shows "add_constrain [a] (make_temp_context n (int k) (int j)) = Inr [makeBoolExpr AND_EXPR [a, n] (-1)] \<and>
    add_constrain [makeBoolExpr AND_EXPR [a, b] (-1)] (make_temp_context n (int k) (int j)) = Inr [TList [a, b, n]]"
proof -
  have "temp_modifier_add a c = Inr (a, c\<lparr>to_add := True\<rparr>)" "temp_modifier_add b c = Inr (b, c\<lparr>to_add := True\<rparr>)"
    if "tvarno_to_add c = int k" "tvarlevelsup_to_add c = int j" for c
    using temp_same [OF assms(1,2) that] temp_same [OF assms(3,4) that] by simp_all
  then show ?thesis
    by (simp add: add_constrain_def make_temp_context_def makeBoolExpr_def temp_modifier_add.simps [of "BoolExpr _ _ _"]
      expression_tree_mutator_simps temp_list)
qed

theorem add_constrain_groups_witness:
  "add_constrain [OpExpr 97 [] [sample_col 1 0]] (make_temp_context Null 1 0) =
      Inr [makeBoolExpr AND_EXPR [OpExpr 97 [] [sample_col 1 0], Null] (-1)] \<and>
    add_constrain [makeBoolExpr AND_EXPR [OpExpr 97 [] [sample_col 1 0], OpExpr 521 [] [sample_col 1 0]] (-1)] (make_temp_context Null 1 0) =
      Inr [TList [OpExpr 97 [] [sample_col 1 0], OpExpr 521 [] [sample_col 1 0], Null]]"
  using add_constrain_groups [of "OpExpr 97 [] [sample_col 1 0]" 1 0 "OpExpr 521 [] [sample_col 1 0]" Null]
  by (simp add: sample_col_def small_def rel_of_def)

end
