(* ===== verification/Traversal.thy ===== *)
theory Traversal
  imports Null_Walker Null_Mutator Self_Optimize Split_Optimize Exist_Optimize
begin

section \<open>What every pass over a tree has in common\<close>

text \<open>
  The passes of the plug-ins are callbacks of \<open>expression_tree_walker\<close> and \<open>expression_tree_mutator\<close>. This
  theory has what follows from the traversals alone: a relation between contexts that every
  callback keeps is kept by the whole traversal, a callback that never returns true never ends a
  walk early, and a pass that looks at certain nodes only (the locale \<open>pass\<close>) copies every tree without
  such nodes.
\<close>

subsection \<open>Relations between contexts\<close>

definition tracks :: "('s \<Rightarrow> 's \<Rightarrow> bool) \<Rightarrow> 's \<Rightarrow> ('a \<times> 's) res \<Rightarrow> bool" where
  "tracks R s r \<longleftrightarrow> (\<forall>y s'. r = Inr (y, s') \<longrightarrow> R s s')"

lemma tracksD: "tracks R s r \<Longrightarrow> r = Inr (y, s') \<Longrightarrow> R s s'"
  by (simp add: tracks_def)

lemma tracks_Inl [simp]: "tracks R s (Inl e)"
  by (simp add: tracks_def)

lemma tracks_Inr [simp]: "tracks R s (Inr (y, s')) \<longleftrightarrow> R s s'"
  by (simp add: tracks_def)

lemma tracks_bnd:
  assumes "transp R" and "tracks R s r" and "\<And>y s'. tracks R s' (h (y, s'))"
  shows "tracks R s (bnd r h)"
proof (cases r)
  case (Inr x)
  obtain y s1 where x: "x = (y, s1)" by (cases x)
  have "R s s1" using assms(2) Inr x by simp
  then show ?thesis using assms(3) [of s1 y] Inr x transpD [OF assms(1)] unfolding tracks_def by auto
qed simp

lemma tracks_pure:
  assumes "reflp R" and "transp R" and "tracks R s r"
  shows "tracks R s (bnd r (\<lambda>(y, s). bnd (g y) (\<lambda>z. Inr (z, s))))"
  using assms(2,3)
proof (rule tracks_bnd)
  fix y s'
  show "tracks R s' (case (y, s') of (y, s) \<Rightarrow> bnd (g y) (\<lambda>z. Inr (z, s)))"
    using assms(1) by (cases "g y") (simp_all add: reflpD)
qed

lemma tracks_mutate_list:
  assumes "reflp R" and "transp R" and "\<And>s. tracks R s (f (list_node xs) s)"
  shows "tracks R s (mutate_list f xs s)"
  unfolding mutate_list_def using tracks_pure [OF assms(1,2,3)] .

lemma tracks_elems:
  assumes "reflp R" and "transp R" and "\<And>k s. k \<in> set xs \<Longrightarrow> tracks R s (f k s)"
  shows "tracks R s (mutate_elems f xs s)"
  using assms(3)
proof (induction xs arbitrary: s)
  case Nil
  show ?case using assms(1) by (simp add: reflpD)
next
  case (Cons x xs)
  show ?case
    by (auto intro!: tracks_bnd [OF assms(2)] Cons simp: reflpD [OF assms(1)])
qed

lemma tracks_mutator:
  assumes R: "reflp R" "transp R" and f: "\<And>k s. weight k < weight n \<Longrightarrow> tracks R s (f k s)"
  shows "tracks R s (expression_tree_mutator f n s)"
proof (cases n)
  case (TList xs)
  have "tracks R s (mutate_elems f xs s)"
    by (rule tracks_elems [OF R]) (use f TList weight_elem in \<open>force simp: less_Suc_eq_le\<close>)
  then show ?thesis
    using TList R(1) by (auto simp: expression_tree_mutator_def reflpD intro!: tracks_bnd [OF R(2)])
qed (use R(1) in \<open>auto simp: expression_tree_mutator_def reflpD
      intro!: tracks_bnd [OF R(2)] tracks_mutate_list [OF R] f\<close>)

text \<open>Leaving a node: the context is adjusted after the sub-nodes have been visited.\<close>

lemma tracks_leave:
  assumes "tracks R t r" and "\<And>y s'. R t s' \<Longrightarrow> tracks Q s (h (y, s'))"
  shows "tracks Q s (bnd r h)"
proof (cases r)
  case (Inr x)
  then show ?thesis using assms by (cases x) simp
qed simp

subsection \<open>The second pass keeps its place\<close>

text \<open>
  What a call of one of the two mutators restores of its context, and the two counters that only grow.
\<close>

definition restores :: "mctx \<Rightarrow> mctx \<Rightarrow> bool" where
  "restores c c' \<longleftrightarrow>
     positive c' = positive c \<and> mcurrent_trueVar c' = mcurrent_trueVar c \<and>
     list_of_not_null_in_current c' = list_of_not_null_in_current c \<and> mtrueVars c' = mtrueVars c \<and>
     mlist_list_true c' = mlist_list_true c \<and> mlist_list_false c' = mlist_list_false c \<and>
     where_i_am c \<le> where_i_am c' \<and> where_i_am_querry c \<le> where_i_am_querry c'"

lemma restores_refl: "reflp restores"
  by (simp add: reflp_def restores_def)

lemma restores_trans: "transp restores"
  by (auto simp: transp_def restores_def)

lemmas restores_mutator = tracks_mutator [OF restores_refl restores_trans]

lemma bool_constraints_keeps:
  assumes "bool_constraints c = Inr c1"
  shows "restores c (c1\<lparr>list_of_not_null_in_current := list_of_not_null_in_current c\<rparr>)"
  using assms by (auto simp: bool_constraints_def restores_def elim!: bnd_eq_InrE)

lemma query_vars_keeps:
  assumes "query_vars c = Inr c1"
  shows "restores c (c1\<lparr>mcurrent_trueVar := mcurrent_trueVar c\<rparr>)"
  using assms by (auto simp: query_vars_def restores_def elim!: bnd_eq_InrE)

text \<open>The parts the two mutators share, for any callback that restores its context.\<close>

lemma restores_not:
  assumes "\<And>k s. weight k < weight n \<Longrightarrow> tracks restores s (f k s)"
  shows "tracks restores c (bnd (expression_tree_mutator f n (c\<lparr>positive := \<not> positive c\<rparr>))
    (\<lambda>(retour, c). Inr (retour, c\<lparr>positive := \<not> positive c\<rparr>)))"
  by (rule tracks_leave [OF restores_mutator [OF assms]]) (auto simp: restores_def)

lemma restores_bool:
  assumes "\<And>k s. weight k < weight n \<Longrightarrow> tracks restores s (f k s)"
  shows "tracks restores c (bnd (bool_constraints c) (\<lambda>c1. bnd (expression_tree_mutator f n c1)
    (\<lambda>(retour, c2). Inr (retour, c2\<lparr>list_of_not_null_in_current := list_of_not_null_in_current c\<rparr>))))"
proof (cases "bool_constraints c")
  case (Inr c1)
  have "tracks restores c (bnd (expression_tree_mutator f n c1)
    (\<lambda>(retour, c2). Inr (retour, c2\<lparr>list_of_not_null_in_current := list_of_not_null_in_current c\<rparr>)))"
    by (rule tracks_leave [OF restores_mutator [OF assms]])
      (use bool_constraints_keeps [OF Inr] in \<open>auto simp: restores_def\<close>)
  then show ?thesis using Inr by simp
qed simp

lemma restores_query:
  assumes "\<And>k s. weight k < weight jt \<Longrightarrow> tracks restores s (f k s)"
  shows "tracks restores c (bnd (query_vars c) (\<lambda>c1. bnd (expression_tree_mutator f jt c1)
    (\<lambda>(jt, c2). Inr (Query q rt jt ts, c2\<lparr>mcurrent_trueVar := mcurrent_trueVar c\<rparr>))))"
proof (cases "query_vars c")
  case (Inr c1)
  have "tracks restores c (bnd (expression_tree_mutator f jt c1)
    (\<lambda>(jt, c2). Inr (Query q rt jt ts, c2\<lparr>mcurrent_trueVar := mcurrent_trueVar c\<rparr>)))"
    by (rule tracks_leave [OF restores_mutator [OF assms]])
      (use query_vars_keeps [OF Inr] in \<open>auto simp: restores_def\<close>)
  then show ?thesis using Inr by simp
qed simp

lemma restores_pending: "restores c c' \<Longrightarrow> restores c (snd (add_pending b n c'))"
  by (simp add: add_pending_def restores_def)

lemma codd_mutator_restores: "tracks restores c (codd_mutator n c)"
proof (induction n arbitrary: c rule: measure_induct_rule [of weight])
  case (less n)
  note mut = restores_mutator [of n codd_mutator, OF less]
  have dflt: "tracks restores c (expression_tree_mutator codd_mutator n c)" by (rule mut)
  show ?case
  proof (cases n)
    case (BoolExpr b args l)
    then show ?thesis
      unfolding codd_mutator.simps [of n]
      using restores_not [of n codd_mutator c, OF less] restores_bool [of n codd_mutator c, OF less]
      by (cases b) simp_all
  next
    case (Query q rt jt ts)
    have "tracks restores s (codd_mutator k s)" if "weight k < weight jt" for k s
      by (rule less) (use that Query in simp)
    from restores_query [of jt codd_mutator c q rt ts, OF this] show ?thesis
      unfolding codd_mutator.simps [of n] using Query by simp
  next
    case (OpExpr opno f args)
    let ?c = "if \<not> positive c \<and> opno \<in> set codd_ops then c\<lparr>mready := True\<rparr> else c"
    have "tracks restores c (bnd (expression_tree_mutator codd_mutator n ?c)
            (\<lambda>(result, c). if constraint_to_add c = [] then Inr (result, c)
            else if \<not> positive c then Inr (add_pending OR_EXPR result c)
            else if has_query n then Inl Shared else expression_tree_mutator codd_mutator n c))"
    proof (rule tracks_leave [OF mut])
      fix y s' assume "restores ?c s'"
      then have r: "restores c s'" by (auto simp: restores_def split: if_splits)
      have "tracks restores c (expression_tree_mutator codd_mutator n s')"
        using mut [of s'] r transpD [OF restores_trans] unfolding tracks_def by blast
      then show "tracks restores c (case (y, s') of (result, c) \<Rightarrow> if constraint_to_add c = [] then Inr (result, c)
            else if \<not> positive c then Inr (add_pending OR_EXPR result c)
            else if has_query n then Inl Shared else expression_tree_mutator codd_mutator n c)"
        using r by (auto simp: add_pending_def restores_def)
    qed
    then show ?thesis unfolding codd_mutator.simps [of n] using OpExpr by simp
  next
    case (Var v)
    then show ?thesis
      unfolding codd_mutator.simps [of n]
      by (auto simp: null_check_def tracks_def restores_def Let_def elim!: bnd_eq_InrE split: if_splits)
  qed (use dflt in \<open>simp_all add: reflpD [OF restores_refl] codd_mutator.simps [of "_ :: node"]\<close>)
qed

lemma marked_mutator_restores: "tracks restores c (marked_mutator n c)"
proof (induction n arbitrary: c rule: measure_induct_rule [of weight])
  case (less n)
  note mut = restores_mutator [of n marked_mutator, OF less]
  have dflt: "tracks restores c (expression_tree_mutator marked_mutator n c)" by (rule mut)
  show ?case
  proof (cases n)
    case (BoolExpr b args l)
    then show ?thesis
      unfolding marked_mutator.simps [of n]
      using restores_not [of n marked_mutator c, OF less] restores_bool [of n marked_mutator c, OF less]
      by (cases b) simp_all
  next
    case (Query q rt jt ts)
    have "tracks restores s (marked_mutator k s)" if "weight k < weight jt" for k s
      by (rule less) (use that Query in simp)
    from restores_query [of jt marked_mutator c q rt ts, OF this] show ?thesis
      unfolding marked_mutator.simps [of n] using Query by simp
  next
    case (OpExpr opno f args)
    define c1 where "c1 = (if positive c \<and> opno = 518 \<or> \<not> positive c \<and> opno = 96 then c\<lparr>mready := True\<rparr> else c)"
    define c2 where "c2 = (if \<not> positive c1 \<and> opno = 1209 then c1\<lparr>mready := True\<rparr> else c1)"
    have c12: "restores c c1" "restores c c2" by (simp_all add: c1_def c2_def restores_def)
    have split: "tracks restores c (expression_tree_mutator marked_mutator (split_comparison st args) c1)"
      if "opno = 525 \<or> opno = 523" "st = 521 \<or> st = 97" for st
    proof -
      have "weight (split_comparison st args) \<le> weight n"
        using that OpExpr weight_split_comparison [of st args] by auto
      then have "tracks restores s (marked_mutator k s)" if "weight k < weight (split_comparison st args)" for k s
        using that by (intro less) simp
      from restores_mutator [of "split_comparison st args" marked_mutator c1, OF this] show ?thesis
        using c12(1) transpD [OF restores_trans] unfolding tracks_def by blast
    qed
    have "tracks restores c (bnd (expression_tree_mutator marked_mutator n c2)
            (\<lambda>(result, c). if constraint_to_add c = [] then Inr (result, c)
            else if \<not> positive c then Inr (add_pending OR_EXPR result c) else Inr (add_pending AND_EXPR result c)))"
    proof (rule tracks_leave [OF mut])
      fix y s' assume "restores c2 s'"
      with c12(2) have "restores c s'" by (rule transpD [OF restores_trans])
      then show "tracks restores c (case (y, s') of (result, c) \<Rightarrow> if constraint_to_add c = [] then Inr (result, c)
            else if \<not> positive c then Inr (add_pending OR_EXPR result c) else Inr (add_pending AND_EXPR result c))"
        by (auto simp: add_pending_def restores_def)
    qed
    then show ?thesis
      unfolding marked_mutator.simps [of n] using OpExpr split
      by (simp add: Let_def c1_def [symmetric] c2_def [symmetric])
  next
    case (Var v)
    then show ?thesis
      unfolding marked_mutator.simps [of n]
      by (auto simp: mark_check_def tracks_def restores_def Let_def elim!: bnd_eq_InrE split: if_splits)
  qed (use dflt in \<open>simp_all add: reflpD [OF restores_refl] marked_mutator.simps [of "_ :: node"]\<close>)
qed

subsection \<open>The first pass visits everything\<close>

definition silent :: "(bool \<times> 's) res \<Rightarrow> bool" where
  "silent r \<longleftrightarrow> (\<forall>b s. r = Inr (b, s) \<longrightarrow> \<not> b)"

lemma silent_simps [simp]: "silent (Inl e)" "silent (Inr (b, s)) \<longleftrightarrow> \<not> b"
  by (simp_all add: silent_def)

lemma silent_bnd: "(\<And>x. silent (h x)) \<Longrightarrow> silent (bnd r h)"
  by (cases r) simp_all

lemma silent_leave: "silent r \<Longrightarrow> silent (bnd r (\<lambda>(b, c). bnd (g c) (\<lambda>c. Inr (b, c))))"
  by (cases r) (auto intro!: silent_bnd)

lemma silent_walk_list:
  assumes "\<And>k s. Inr k \<in> set ks \<Longrightarrow> silent (w k s)"
  shows "silent (walk_list w ks s)"
  using assms
proof (induction ks arbitrary: s)
  case (Cons k ks)
  show ?case
  proof (cases k)
    case (Inr n)
    then have "silent (w n s)" using Cons.prems by simp
    then show ?thesis using Cons Inr by (cases "w n s") auto
  qed simp
qed simp

lemma silent_walker:
  assumes "\<And>k s. weight k < weight n \<Longrightarrow> silent (w k s)"
  shows "silent (expression_tree_walker w n s)"
  unfolding expression_tree_walker_def
  by (rule silent_walk_list) (simp add: assms walk_subnodes_weight)

lemma silent_query:
  assumes "\<And>k s. weight k < weight (list_node rt) \<Longrightarrow> silent (w k s)" and "\<And>k s. weight k < weight jt \<Longrightarrow> silent (w k s)"
  shows "silent (bnd (query_enter c) (\<lambda>c1. bnd (expression_tree_walker w (list_node rt) c1) (\<lambda>(result, c2).
    bnd (query_push c2) (\<lambda>c3. bnd (expression_tree_walker w jt c3) (\<lambda>(b, c4).
    Inr (b \<or> result, c4\<lparr>current_trueVar := current_trueVar c\<rparr>))))))"
proof (rule silent_bnd)
  fix c1
  have r: "silent (expression_tree_walker w (list_node rt) c1)" by (rule silent_walker) (rule assms(1))
  have j: "silent (expression_tree_walker w jt c3)" for c3 by (rule silent_walker) (rule assms(2))
  show "silent (bnd (expression_tree_walker w (list_node rt) c1) (\<lambda>(result, c2).
    bnd (query_push c2) (\<lambda>c3. bnd (expression_tree_walker w jt c3) (\<lambda>(b, c4).
    Inr (b \<or> result, c4\<lparr>current_trueVar := current_trueVar c\<rparr>)))))"
  proof (cases "expression_tree_walker w (list_node rt) c1")
    case (Inr x)
    obtain c2 where "x = (False, c2)" using r Inr by (cases x) simp
    moreover have "silent (bnd (expression_tree_walker w jt c3) (\<lambda>(b, c4). Inr (b \<or> False, c4\<lparr>current_trueVar := current_trueVar c\<rparr>)))" for c3
      using j [of c3] by (cases "expression_tree_walker w jt c3") auto
    ultimately show ?thesis using Inr by (simp add: silent_bnd)
  qed simp
qed

lemma codd_walker_silent: "silent (codd_walker cat n c)"
proof (induction n arbitrary: c rule: measure_induct_rule [of weight])
  case (less n)
  note walk = silent_walker [of n "codd_walker cat", OF less]
  show ?case
  proof (cases n)
    case (BoolExpr b args l)
    then show ?thesis
      unfolding codd_walker.simps [of cat n]
      using silent_leave [OF walk, of "bool_enter c" "bool_leave b c (int (length args))"] by simp
  next
    case (OpExpr opno f args)
    then show ?thesis
      unfolding codd_walker.simps [of cat n] using silent_leave [OF walk] by simp
  next
    case (Query q rt jt ts)
    have "silent (codd_walker cat k s)" if "weight k < weight (list_node rt) \<or> weight k < weight jt" for k s
      by (rule less) (use that Query in auto)
    then show ?thesis
      unfolding codd_walker.simps [of cat n] using Query silent_query [of rt "codd_walker cat" jt c] by simp
  next
    case (Var v)
    then show ?thesis
      unfolding codd_walker.simps [of cat n] using walk by (auto intro!: silent_bnd)
  next
    case (RangeTblEntry k relid sub al er f)
    have "silent (expression_tree_walker (codd_walker cat) (list_node rt) c)" if "subquery_rtable sub = Inr rt" for rt
      by (rule silent_walker, rule less) (use weight_subquery_rtable [OF that] RangeTblEntry in simp)
    then show ?thesis
      unfolding codd_walker.simps [of cat n] using RangeTblEntry walk
      by (cases "subquery_rtable sub") (auto intro!: silent_bnd)
  qed (use walk in \<open>simp_all add: codd_walker.simps [of cat "_ :: node"]\<close>)
qed

lemma marked_walker_silent: "silent (marked_walker cat n c)"
proof (induction n arbitrary: c rule: measure_induct_rule [of weight])
  case (less n)
  note walk = silent_walker [of n "marked_walker cat", OF less]
  show ?case
  proof (cases n)
    case (BoolExpr b args l)
    then show ?thesis
      unfolding marked_walker.simps [of cat n]
      using silent_leave [OF walk, of "bool_enter c" "bool_leave b c (int (length args))"] by simp
  next
    case (OpExpr opno f args)
    then show ?thesis
      unfolding marked_walker.simps [of cat n] using silent_leave [OF walk] walk by (cases "opno = 518") simp_all
  next
    case (Query q rt jt ts)
    have "silent (marked_walker cat k s)" if "weight k < weight (list_node rt) \<or> weight k < weight jt" for k s
      by (rule less) (use that Query in auto)
    then show ?thesis
      unfolding marked_walker.simps [of cat n] using Query silent_query [of rt "marked_walker cat" jt c] by simp
  next
    case (Var v)
    then show ?thesis
      unfolding marked_walker.simps [of cat n] using walk by (auto intro!: silent_bnd)
  qed (use walk in \<open>auto simp: marked_walker.simps [of cat "_ :: node"] intro!: silent_bnd\<close>)
qed

subsection \<open>A pass copies what it does not look at\<close>

fun recognized :: "node \<Rightarrow> bool" where
  "recognized (RangeTblEntry k r q al er f) = False"
| "recognized (Other t) = False"
| "recognized n = True"

text \<open>The sub-nodes of a node, the elements of its list fields among them.\<close>

fun children :: "node \<Rightarrow> node list" where
  "children (ArgNode t f a) = [a]"
| "children (ArgsNode t f as) = as"
| "children (ElemsNode t f as) = as"
| "children (Aggref f as bs cs ds e) = as @ bs @ cs @ ds @ [e]"
| "children (WindowFunc f as b) = as @ [b]"
| "children (ArrayRef f as bs c d) = as @ bs @ [c, d]"
| "children (OpExpr opno f as) = as"
| "children (BoolExpr b as l) = as"
| "children (SubLink t f a b) = [a, b]"
| "children (SubPlan f a bs) = a # bs"
| "children (FieldStore f a bs) = a # bs"
| "children (CaseExpr f a bs c) = a # bs @ [c]"
| "children (CaseWhen f a b) = [a, b]"
| "children (RowCompareExpr f as bs) = as @ bs"
| "children (XmlExpr f as bs) = as @ bs"
| "children (NullTest t a r l) = [a]"
| "children (TargetEntry a r f) = [a]"
| "children (WindowClause f as bs c d) = as @ bs @ [c, d]"
| "children (TList as) = as"
| "children (FromExpr as b) = as @ [b]"
| "children (OnConflictExpr f as b cs d es) = as @ b # cs @ d # es"
| "children (JoinExpr f a b c) = [a, b, c]"
| "children (SetOperationStmt f a b) = [a, b]"
| "children (TableSampleClause f as b) = as @ [b]"
| "children n = []"

lemma weight_children: "k \<in> set (children n) \<Longrightarrow> weight k < weight n"
  by (cases n) (auto dest: weight_elem)

function every :: "(node \<Rightarrow> bool) \<Rightarrow> node \<Rightarrow> bool" where
  "every P n \<longleftrightarrow> n = Null \<or> recognized n \<and> P n \<and> (\<forall>k \<in> set (children n). every P k)"
  by pat_completeness auto
termination
  by (relation "measure (\<lambda>(P, n). weight n)") (auto dest: weight_children)

declare every.simps [simp del]

locale pass =
  fixes f :: "node \<Rightarrow> 's \<Rightarrow> (node \<times> 's) res" and special :: "node \<Rightarrow> bool"
  assumes at_Null: "f Null s = Inr (Null, s)"
    and at_TList: "f (TList xs) s = expression_tree_mutator f (TList xs) s"
    and at_other: "\<not> special n \<Longrightarrow> f n s = expression_tree_mutator f n s"
begin

lemma copies_list:
  assumes "\<And>k s. k \<in> set xs \<Longrightarrow> f k s = Inr (k, s)"
  shows "mutate_list f xs s = Inr (xs, s)" and "mutate_elems f xs s = Inr (xs, s)"
proof -
  show e: "mutate_elems f xs s = Inr (xs, s)" using assms by (induction xs) simp_all
  show "mutate_list f xs s = Inr (xs, s)" using e by (simp add: mutate_list_elems [OF at_Null at_TList])
qed

lemma copies_node:
  assumes "recognized n" and k: "\<And>k s. k \<in> set (children n) \<Longrightarrow> f k s = Inr (k, s)"
  shows "expression_tree_mutator f n s = Inr (if n = TList [] then Null else n, s)"
proof (cases n)
  case (TList xs)
  then show ?thesis using copies_list(2) [of xs s] k by (cases xs) (simp_all add: expression_tree_mutator_def)
qed (use assms in \<open>simp_all add: expression_tree_mutator_def copies_list(1)\<close>)

lemma copies: "every (\<lambda>k. \<not> special k \<and> k \<noteq> TList []) n \<Longrightarrow> f n s = Inr (n, s)"
proof (induction n arbitrary: s rule: measure_induct_rule [of weight])
  case (less n)
  show ?case
  proof (cases "n = Null")
    case False
    then have n: "recognized n" "\<not> special n" "n \<noteq> TList []" "\<forall>k \<in> set (children n). every (\<lambda>k. \<not> special k \<and> k \<noteq> TList []) k"
      using less.prems by (simp_all add: every.simps [of _ n])
    have "f k s = Inr (k, s)" if "k \<in> set (children n)" for k s
      by (rule less.IH) (use that n(4) weight_children in auto)
    then show ?thesis using copies_node [OF n(1)] n(2,3) at_other by simp
  qed (simp add: at_Null)
qed

end

abbreviation is_query :: "node \<Rightarrow> bool" where
  "is_query n \<equiv> (case n of Query q rt jt ts \<Rightarrow> True | _ \<Rightarrow> False)"

abbreviation condition_node :: "node \<Rightarrow> bool" where
  "condition_node n \<equiv> (case n of Query q rt jt ts \<Rightarrow> True | BoolExpr b as l \<Rightarrow> True | OpExpr opno fs as \<Rightarrow> True | Var v \<Rightarrow> True | _ \<Rightarrow> False)"

interpretation self_pass: pass mutator_deep is_query
  by unfold_locales (subst mutator_deep.simps, simp split: node.splits add: expression_tree_mutator_simps)+

interpretation exist_pass: pass mutator_exist_deep is_query
  by unfold_locales (subst mutator_exist_deep.simps, simp split: node.splits add: expression_tree_mutator_simps)+

interpretation codd_pass: pass codd_mutator condition_node
  by unfold_locales (subst codd_mutator.simps, simp split: node.splits add: expression_tree_mutator_simps)+

interpretation marked_pass: pass marked_mutator condition_node
  by unfold_locales (subst marked_mutator.simps, simp split: node.splits add: expression_tree_mutator_simps)+

abbreviation is_negation :: "node \<Rightarrow> bool" where
  "is_negation n \<equiv> (case n of BoolExpr b as l \<Rightarrow> b = NOT_EXPR | _ \<Rightarrow> False)"

interpretation split_pass: pass "mutator_split_deep fuel" is_negation
  by unfold_locales (subst mutator_split_deep.simps, simp split: node.splits add: expression_tree_mutator_simps)+

subsection \<open>Properties\<close>

text \<open>
  C29. The walkers of both plug-ins never return true, whatever tree they are called on, so no walk ends
  before the last sub-node: \<open>expression_tree_walker\<close> goes on after every one of their calls.
\<close>

theorem walkers_never_stop:
  "(codd_walker cat n c = Inr (b, c') \<longrightarrow> \<not> b) \<and> (marked_walker cat n c = Inr (b, c') \<longrightarrow> \<not> b) \<and>
   walk_list (codd_walker cat) (Inr n # ks) c = bnd (codd_walker cat n c) (\<lambda>(_, c). walk_list (codd_walker cat) ks c) \<and>
   walk_list (marked_walker cat) (Inr n # ks) c = bnd (marked_walker cat n c) (\<lambda>(_, c). walk_list (marked_walker cat) ks c)"
proof -
  have walk: "bnd r (\<lambda>(b, s). if b then Inr (True, s) else h s) = bnd r (\<lambda>(_, s). h s)" if "silent r" for r and h :: "wctx \<Rightarrow> _"
    using that by (cases r) auto
  show ?thesis
    using codd_walker_silent [of cat n c] marked_walker_silent [of cat n c] walk
    by (auto simp: silent_def)
qed

definition no_catalog :: pg_catalog where
  "no_catalog = \<lparr>rel_natts = \<lambda>_. None, att_notnull = \<lambda>_ _. None\<rparr>"

theorem walkers_never_stop_witness:
  "codd_walker no_catalog (RangeTblRef 1) (make_context_walker_set_constraint empty_mem) =
     Inr (False, make_context_walker_set_constraint empty_mem) \<and> \<not> False"
  using walkers_never_stop [of no_catalog "RangeTblRef 1" "make_context_walker_set_constraint empty_mem" False
      "make_context_walker_set_constraint empty_mem" "[]"]
  by (simp add: codd_walker.simps [of _ "RangeTblRef 1"] expression_tree_walker_simps)

text \<open>
  C30. The deep optimisations only work on sub-queries. Splitting leaves a query alone whose join tree has no
  negation, and the pass over connected components leaves a query alone whose join tree has no
  sub-query, even if its own relations fall into several components.
\<close>

theorem deep_passes_copy:
  assumes "every (\<lambda>k. \<not> is_negation k \<and> k \<noteq> TList []) jointree" and "every (\<lambda>k. \<not> is_query k \<and> k \<noteq> TList []) jointree'"
  shows "optimize_split_deep fuel (Query q rtable jointree targetList) = Inr (Query q rtable jointree targetList) \<and>
    optimize_exist_deep (Query q rtable jointree' targetList) i = Inr (Query q rtable jointree' targetList, i)"
  using split_pass.copies [OF assms(1), of fuel "()"] exist_pass.copies [OF assms(2)] by simp

theorem deep_passes_copy_witness:
  "optimize_split_deep 0 (Query zero_query [] (FromExpr [RangeTblRef 1, RangeTblRef 2] (OpExpr 96 [] [Var zero_var])) []) =
     Inr (Query zero_query [] (FromExpr [RangeTblRef 1, RangeTblRef 2] (OpExpr 96 [] [Var zero_var])) []) \<and>
   optimize_exist_deep (Query zero_query [] (FromExpr [RangeTblRef 1, RangeTblRef 2] (OpExpr 96 [] [Var zero_var])) []) 3 =
     Inr (Query zero_query [] (FromExpr [RangeTblRef 1, RangeTblRef 2] (OpExpr 96 [] [Var zero_var])) [], 3)"
  by (rule deep_passes_copy)
    (simp_all add: every.simps [of _ "FromExpr _ _"] every.simps [of _ "RangeTblRef _"] every.simps [of _ "OpExpr _ _ _"] every.simps [of _ "Var _"])

end
