(* ===== verification/Mutator_Shape.thy ===== *)
theory Mutator_Shape
  imports Traversal Codd_Certain Renumbering
begin

section \<open>Rewritten conditions are conditions\<close>

text \<open>
  Properties of the second pass that do not depend on the lists of the first one: the result is a
  condition again, over the variables of the original one; in a positive context without a negation
  nothing is rewritten at all.
\<close>

subsection \<open>Shape\<close>

definition pending_ok :: "(pg_var \<Rightarrow> bool) \<Rightarrow> mctx \<Rightarrow> bool" where
  "pending_ok P c \<longleftrightarrow> list_all (evaluable P) (constraint_to_add c)"

definition gives :: "(pg_var \<Rightarrow> bool) \<Rightarrow> (node \<times> mctx) res \<Rightarrow> bool" where
  "gives P r \<longleftrightarrow> (\<forall>n c. r = Inr (n, c) \<longrightarrow> evaluable P n \<and> pending_ok P c)"

lemma gives_simps [simp]:
  "gives P (Inl e)" "gives P (Inr (n, c)) \<longleftrightarrow> evaluable P n \<and> pending_ok P c"
  by (simp_all add: gives_def)

lemma gives_bnd: "gives P r \<Longrightarrow> (\<And>n c. evaluable P n \<Longrightarrow> pending_ok P c \<Longrightarrow> gives P (h (n, c))) \<Longrightarrow> gives P (bnd r h)"
  by (cases r) auto

lemma gives_elems:
  assumes "\<And>k c. k \<in> set xs \<Longrightarrow> pending_ok P c \<Longrightarrow> gives P (f k c)" and "pending_ok P c" and "mutate_elems f xs c = Inr (ys, c')"
  shows "list_all (evaluable P) ys \<and> pending_ok P c' \<and> length ys = length xs"
  using assms
proof (induction xs arbitrary: c ys)
  case (Cons x xs)
  obtain y c1 zs where y: "f x c = Inr (y, c1)" "mutate_elems f xs c1 = Inr (zs, c')" "ys = y # zs"
    using Cons.prems(3) by (auto elim!: bnd_eq_InrE)
  have "evaluable P y \<and> pending_ok P c1" using Cons.prems(1) [of x c] Cons.prems(2) y(1) by simp
  then show ?case using Cons.IH [OF _ _ y(2)] Cons.prems(1) y(3) by auto
qed simp

lemma gives_list:
  assumes "\<And>s. f Null s = Inr (Null, s)" and "\<And>xs s. f (TList xs) s = expression_tree_mutator f (TList xs) s"
    and "\<And>k c. k \<in> set xs \<Longrightarrow> pending_ok P c \<Longrightarrow> gives P (f k c)" and "pending_ok P c"
    and "\<And>ys c. list_all (evaluable P) ys \<Longrightarrow> length ys = length xs \<Longrightarrow> evaluable P (h ys)"
  shows "gives P (bnd (mutate_list f xs c) (\<lambda>(ys, c). Inr (h ys, c)))"
proof (cases "mutate_elems f xs c")
  case (Inr r)
  obtain ys c' where r: "r = (ys, c')" by (cases r)
  show ?thesis
    using gives_elems [OF assms(3,4)] Inr r assms(5) by (simp add: mutate_list_elems [OF assms(1,2)])
qed (simp add: mutate_list_elems [OF assms(1,2)])

lemma gives_mutator:
  assumes f: "\<And>s. f Null s = Inr (Null, s)" "\<And>xs s. f (TList xs) s = expression_tree_mutator f (TList xs) s"
    and k: "\<forall>k c. weight k < weight n \<longrightarrow> evaluable P k \<longrightarrow> pending_ok P c \<longrightarrow> gives P (f k c)"
    and n: "evaluable P n" and c: "pending_ok P c"
  shows "gives P (expression_tree_mutator f n c)"
proof -
  have elems: "gives P (f k c)" if "k \<in> set xs" "list_all (evaluable P) xs" "sum_list (map weight xs) < weight n" "pending_ok P c" for k xs c
    using that weight_elem [OF that(1)] by (intro k [rule_format]) (auto simp: list_all_iff)
  show ?thesis
  proof (cases n)
    case (OpExpr opno fs args)
    have "gives P (bnd (mutate_list f args c) (\<lambda>(ys, c). Inr (OpExpr opno fs ys, c)))"
      by (rule gives_list [OF f elems c]) (use OpExpr n in auto)
    then show ?thesis using OpExpr by (simp add: expression_tree_mutator_simps)
  next
    case (BoolExpr b args l)
    have "gives P (bnd (mutate_list f args c) (\<lambda>(ys, c). Inr (BoolExpr b ys l, c)))"
      by (rule gives_list [OF f elems c]) (use BoolExpr n in auto)
    then show ?thesis using BoolExpr by (simp add: expression_tree_mutator_simps)
  next
    case (NullTest t arg r l)
    then have "gives P (f arg c)" using k n c by simp
    then show ?thesis using NullTest n by (auto simp: expression_tree_mutator_simps intro!: gives_bnd)
  qed (use n c in \<open>simp_all add: expression_tree_mutator_simps\<close>)
qed

lemma pending_update [simp]:
  "pending_ok P (c\<lparr>positive := b\<rparr>) = pending_ok P c" "pending_ok P (c\<lparr>mready := b\<rparr>) = pending_ok P c"
  "pending_ok P (c\<lparr>list_of_not_null_in_current := l\<rparr>) = pending_ok P c"
  "pending_ok P (c\<lparr>constraint_to_add := ns\<rparr>) = list_all (evaluable P) ns"
  by (simp_all add: pending_ok_def)

lemma pending_bool_constraints: "bool_constraints c = Inr c1 \<Longrightarrow> pending_ok P c1 = pending_ok P c"
  by (auto simp: bool_constraints_def pending_ok_def elim!: bnd_eq_InrE)

lemma gives_add_pending: "evaluable P n \<Longrightarrow> pending_ok P c \<Longrightarrow> gives P (Inr (add_pending b n c))"
  by (simp add: add_pending_def makeBoolExpr_def pending_ok_def)

text \<open>The connectives, for both mutators.\<close>

lemma gives_connective:
  assumes f: "\<And>s. f Null s = Inr (Null, s)" "\<And>xs s. f (TList xs) s = expression_tree_mutator f (TList xs) s"
    and k: "\<forall>k c. weight k < weight n \<longrightarrow> evaluable P k \<longrightarrow> pending_ok P c \<longrightarrow> gives P (f k c)"
    and n: "evaluable P n" and c: "pending_ok P c"
  shows "gives P (bnd (expression_tree_mutator f n (c\<lparr>positive := \<not> positive c\<rparr>)) (\<lambda>(retour, c). Inr (retour, c\<lparr>positive := \<not> positive c\<rparr>)))"
    and "gives P (bnd (bool_constraints c) (\<lambda>c1. bnd (expression_tree_mutator f n c1) (\<lambda>(retour, c2).
      Inr (retour, c2\<lparr>list_of_not_null_in_current := list_of_not_null_in_current c\<rparr>))))"
proof -
  have mut: "gives P (expression_tree_mutator f n c)" if "pending_ok P c" for c
    by (rule gives_mutator [OF f k n that])
  show "gives P (bnd (expression_tree_mutator f n (c\<lparr>positive := \<not> positive c\<rparr>)) (\<lambda>(retour, c). Inr (retour, c\<lparr>positive := \<not> positive c\<rparr>)))"
    by (rule gives_bnd [OF mut]) (use c in simp_all)
  show "gives P (bnd (bool_constraints c) (\<lambda>c1. bnd (expression_tree_mutator f n c1) (\<lambda>(retour, c2).
      Inr (retour, c2\<lparr>list_of_not_null_in_current := list_of_not_null_in_current c\<rparr>))))"
  proof (cases "bool_constraints c")
    case (Inr c1)
    have "gives P (bnd (expression_tree_mutator f n c1) (\<lambda>(retour, c2).
      Inr (retour, c2\<lparr>list_of_not_null_in_current := list_of_not_null_in_current c\<rparr>)))"
      by (rule gives_bnd [OF mut]) (use pending_bool_constraints [OF Inr] c in simp_all)
    then show ?thesis using Inr by simp
  qed simp
qed

lemma codd_gives:
  assumes P: "\<And>v. P v \<Longrightarrow> P (v\<lparr>vlocation := -1\<rparr>)"
  shows "evaluable P n \<Longrightarrow> pending_ok P c \<Longrightarrow> gives P (codd_mutator n c)"
proof (induction n arbitrary: c rule: measure_induct_rule [of weight])
  case (less n)
  note f = codd_pass.at_Null codd_pass.at_TList
  have IH: "\<forall>k c. weight k < weight n \<longrightarrow> evaluable P k \<longrightarrow> pending_ok P c \<longrightarrow> gives P (codd_mutator k c)"
    using less.IH by blast
  note mut = gives_mutator [OF f IH less.prems(1)]
  show ?case
  proof (cases n)
    case (BoolExpr b args l)
    then show ?thesis
      unfolding codd_mutator.simps [of n] using gives_connective [OF f IH less.prems] by (cases b) simp_all
  next
    case (OpExpr opno fs args)
    let ?c = "if \<not> positive c \<and> opno \<in> set codd_ops then c\<lparr>mready := True\<rparr> else c"
    have "gives P (bnd (expression_tree_mutator codd_mutator n ?c)
            (\<lambda>(result, c). if constraint_to_add c = [] then Inr (result, c)
            else if \<not> positive c then Inr (add_pending OR_EXPR result c)
            else if has_query n then Inl Shared else expression_tree_mutator codd_mutator n c))"
      by (rule gives_bnd [OF mut]) (use less.prems(2) mut gives_add_pending in \<open>auto split: if_splits\<close>)
    then show ?thesis unfolding codd_mutator.simps [of n] using OpExpr by simp
  next
    case (Var v)
    then show ?thesis
      unfolding codd_mutator.simps [of n] using less.prems P [of v]
      by (auto simp: gives_def null_check_def pending_ok_def Let_def elim!: bnd_eq_InrE split: if_splits)
  next
    case (NullTest t arg r l)
    then show ?thesis unfolding codd_mutator.simps [of n] using mut less.prems(2) by simp
  next
    case (Const k)
    then show ?thesis unfolding codd_mutator.simps [of n] using mut less.prems(2) by simp
  qed (use less.prems in simp_all)
qed

lemma marked_gives: "evaluable P n \<Longrightarrow> pending_ok P c \<Longrightarrow> gives P (marked_mutator n c)"
proof (induction n arbitrary: c rule: measure_induct_rule [of weight])
  case (less n)
  note f = marked_pass.at_Null marked_pass.at_TList
  have IH: "\<forall>k c. weight k < weight n \<longrightarrow> evaluable P k \<longrightarrow> pending_ok P c \<longrightarrow> gives P (marked_mutator k c)"
    using less.IH by blast
  note mut = gives_mutator [OF f IH less.prems(1)]
  show ?case
  proof (cases n)
    case (BoolExpr b args l)
    then show ?thesis
      unfolding marked_mutator.simps [of n] using gives_connective [OF f IH less.prems] by (cases b) simp_all
  next
    case (OpExpr opno fs args)
    define c1 where "c1 = (if positive c \<and> opno = 518 \<or> \<not> positive c \<and> opno = 96 then c\<lparr>mready := True\<rparr> else c)"
    define c2 where "c2 = (if \<not> positive c1 \<and> opno = 1209 then c1\<lparr>mready := True\<rparr> else c1)"
    have c12: "pending_ok P c1" "pending_ok P c2" using less.prems(2) by (simp_all add: c1_def c2_def)
    have split: "gives P (expression_tree_mutator marked_mutator (split_comparison st args) c1)"
      if "opno = 525 \<or> opno = 523" "st = 521 \<or> st = 97" for st
    proof (rule gives_mutator [OF f])
      have "weight (split_comparison st args) \<le> weight n"
        using that OpExpr weight_split_comparison [of st args] by auto
      then show "\<forall>k c. weight k < weight (split_comparison st args) \<longrightarrow> evaluable P k \<longrightarrow> pending_ok P c \<longrightarrow> gives P (marked_mutator k c)"
        using IH by auto
    qed (use c12(1) less.prems(1) OpExpr in \<open>simp_all add: split_comparison_def makeBoolExpr_def\<close>)
    have "gives P (bnd (expression_tree_mutator marked_mutator n c2)
            (\<lambda>(result, c). if constraint_to_add c = [] then Inr (result, c)
            else if \<not> positive c then Inr (add_pending OR_EXPR result c) else Inr (add_pending AND_EXPR result c)))"
      by (rule gives_bnd [OF mut [OF c12(2)]]) (use gives_add_pending in auto)
    then show ?thesis
      unfolding marked_mutator.simps [of n] using OpExpr split
      by (simp add: Let_def c1_def [symmetric] c2_def [symmetric])
  next
    case (Var v)
    then show ?thesis
      unfolding marked_mutator.simps [of n] using less.prems
      by (auto simp: gives_def mark_check_def pending_ok_def compare_zero_def makeConst_def elim!: bnd_eq_InrE split: if_splits)
  next
    case (NullTest t arg r l)
    then show ?thesis unfolding marked_mutator.simps [of n] using mut less.prems(2) by simp
  next
    case (Const k)
    then show ?thesis unfolding marked_mutator.simps [of n] using mut less.prems(2) by simp
  qed (use less.prems in simp_all)
qed

subsection \<open>Conditions without negation\<close>

fun no_not :: "node \<Rightarrow> bool" where
  "no_not (Var v) = True"
| "no_not (Const c) = True"
| "no_not (OpExpr opno f args) = list_all no_not args"
| "no_not (BoolExpr b args l) = (b \<noteq> NOT_EXPR \<and> list_all no_not args)"
| "no_not (NullTest t arg r l) = no_not arg"
| "no_not _ = False"

definition at_rest :: "column set \<Rightarrow> vmem \<Rightarrow> nat \<Rightarrow> mctx \<Rightarrow> bool" where
  "at_rest A m0 cur c \<longleftrightarrow> mctx_ok (\<lambda>ns. ns = []) A m0 cur c \<and> positive c \<and> \<not> mready c"

definition copies_at_rest :: "column set \<Rightarrow> vmem \<Rightarrow> nat \<Rightarrow> node \<Rightarrow> bool" where
  "copies_at_rest A m0 cur n \<longleftrightarrow> (\<forall>c. at_rest A m0 cur c \<longrightarrow>
     (\<exists>c'. codd_mutator n c = Inr (n, c') \<and> at_rest A m0 cur c' \<and> heap_le (mmem c) (mmem c')))"

lemma rest_elems:
  assumes "\<forall>k \<in> set xs. copies_at_rest A m0 cur k" and "at_rest A m0 cur c"
  shows "\<exists>c'. mutate_elems codd_mutator xs c = Inr (xs, c') \<and> at_rest A m0 cur c' \<and> heap_le (mmem c) (mmem c')"
  using assms
proof (induction xs arbitrary: c)
  case (Cons x xs)
  obtain c1 where c1: "codd_mutator x c = Inr (x, c1)" "at_rest A m0 cur c1" "heap_le (mmem c) (mmem c1)"
    using Cons.prems unfolding copies_at_rest_def by auto
  obtain c2 where "mutate_elems codd_mutator xs c1 = Inr (xs, c2)" "at_rest A m0 cur c2" "heap_le (mmem c1) (mmem c2)"
    using Cons.IH [OF _ c1(2)] Cons.prems(1) by auto
  then show ?case using c1 heap_le_trans [of "mmem c" "mmem c1" "mmem c2"] by auto
qed auto

lemma rest_connective:
  assumes "\<forall>k \<in> set args. copies_at_rest A m0 cur k" and "b \<noteq> NOT_EXPR"
  shows "copies_at_rest A m0 cur (BoolExpr b args l)"
  unfolding copies_at_rest_def
proof (intro allI impI)
  fix c assume c: "at_rest A m0 cur c"
  obtain c1 where c1: "bool_constraints c = Inr c1" "mctx_ok (\<lambda>ns. ns = []) A m0 cur c1" "positive c1 = positive c" "heap_le (mmem c) (mmem c1)"
    using bool_constraints_ok [of "\<lambda>ns. ns = []" A m0 cur c] c unfolding at_rest_def by blast
  have "mready c1 = mready c" using c1(1) by (auto simp: bool_constraints_def elim!: bnd_eq_InrE)
  then have "at_rest A m0 cur c1" using c c1(2,3) by (simp add: at_rest_def)
  from rest_elems [OF assms(1) this] obtain c2 where
    c2: "mutate_elems codd_mutator args c1 = Inr (args, c2)" "at_rest A m0 cur c2" "heap_le (mmem c1) (mmem c2)" by blast
  let ?c = "c2\<lparr>list_of_not_null_in_current := list_of_not_null_in_current c\<rparr>"
  have le: "heap_le (mmem c) (mmem c2)" by (rule heap_le_trans [OF c1(4) c2(3)])
  have "codd_mutator (BoolExpr b args l) c = Inr (BoolExpr b args l, ?c)"
    using assms(2) c1(1) c2(1) by (simp add: codd.mut_bool expression_tree_mutator_simps codd.mut_list)
  moreover have "at_rest A m0 cur ?c"
    using c c2(2) attr_list_le [OF le] by (simp add: at_rest_def mctx_ok_def)
  ultimately show "\<exists>c'. codd_mutator (BoolExpr b args l) c = Inr (BoolExpr b args l, c') \<and> at_rest A m0 cur c' \<and> heap_le (mmem c) (mmem c')"
    using le by auto
qed

lemma rest_copies: "no_not n \<Longrightarrow> copies_at_rest A m0 cur n"
proof (induction n rule: no_not.induct)
  case (3 opno f args)
  have args: "\<forall>k \<in> set args. copies_at_rest A m0 cur k" using 3 by (simp add: list_all_iff)
  show ?case
    unfolding copies_at_rest_def
  proof (intro allI impI)
    fix c assume c: "at_rest A m0 cur c"
    obtain c1 where c1: "mutate_elems codd_mutator args c = Inr (args, c1)" "at_rest A m0 cur c1" "heap_le (mmem c) (mmem c1)"
      using rest_elems [OF args c] by blast
    then have "codd_mutator (OpExpr opno f args) c = Inr (OpExpr opno f args, c1)"
      using c by (simp add: codd_mutator.simps [of "OpExpr _ _ _"] expression_tree_mutator_simps codd.mut_list at_rest_def mctx_ok_def)
    then show "\<exists>c'. codd_mutator (OpExpr opno f args) c = Inr (OpExpr opno f args, c') \<and> at_rest A m0 cur c' \<and> heap_le (mmem c) (mmem c')"
      using c1 by blast
  qed
next
  case (4 b args l)
  then show ?case by (intro rest_connective) (simp_all add: list_all_iff)
next
  case (5 t arg r l)
  then show ?case
    by (force simp: copies_at_rest_def codd_mutator.simps [of "NullTest _ _ _ _"] expression_tree_mutator_simps)
qed (simp_all add: copies_at_rest_def codd_mutator.simps [of "Var _"] codd_mutator.simps [of "Const _"]
      expression_tree_mutator_simps at_rest_def)

subsection \<open>Properties\<close>


definition sample_not :: node where
  "sample_not = BoolExpr NOT_EXPR [sample_cond 518] 0"

lemma sample_resolves: "getTrueVar sample_mem 4 sample_var = Inr 1"
  by (simp add: getTrueVar_def list_nth_def list_nth_cell_def lfirst_def load_list_def load_cell_def
      sample_mem_def sample_var_def zero_var_def int_of_index_def)

lemma sample_not_returns: "\<not> isl (codd_mutator sample_not (sample_mctx True))"
  using sample_resolves
  by (simp add: sample_not_def sample_cond_def sample_mctx_def codd.mut_not expression_tree_mutator_simps codd.mut_list
      codd_mutator_op codd_mutator_simps codd_ops_def null_check_def isInListTrueVar_def makeConst_def add_pending_def Let_def)


text \<open>
  C12. Both mutators turn conditions into conditions: from a condition built of comparisons, null tests
  and connectives, with no constraint pending, every result is such a condition again, without a null
  pointer or an empty connective, and its variables are those of the original one up to their
  position in the query text.
\<close>

theorem mutators_give_conditions:
  assumes "evaluable P n" and "\<forall>v. P v \<longrightarrow> P (v\<lparr>vlocation := -1\<rparr>)" and "constraint_to_add c = []"
  shows "(codd_mutator n c = Inr (n', c') \<longrightarrow> evaluable P n') \<and> (marked_mutator n c = Inr (n', c') \<longrightarrow> evaluable P n')"
proof -
  have "pending_ok P c" using assms(3) by (simp add: pending_ok_def)
  then show ?thesis
    using codd_gives [of P n c] marked_gives [of P n c] assms(1,2) by (auto simp: gives_def)
qed

theorem mutators_give_conditions_witness:
  "\<exists>n' c'. codd_mutator sample_not (sample_mctx True) = Inr (n', c') \<and> evaluable (\<lambda>v. varno v = 1) n'"
proof -
  obtain n' c' where r: "codd_mutator sample_not (sample_mctx True) = Inr (n', c')"
    using sample_not_returns by (cases "codd_mutator sample_not (sample_mctx True)") auto
  have "evaluable (\<lambda>v. varno v = 1) sample_not"
    by (simp add: sample_not_def sample_cond_def makeConst_def sample_var_def)
  moreover have "constraint_to_add (sample_mctx True) = []" by (simp add: sample_mctx_def)
  ultimately show ?thesis
    using mutators_give_conditions [of "\<lambda>v. varno v = 1" sample_not "sample_mctx True" n' c'] r by simp
qed

text \<open>
  C13. A positive condition is left alone: in a positive context, with no constraint pending, the Codd mutator
  returns a condition without negation unchanged. Its certain answers are those SQL gives anyway.
\<close>

theorem codd_positive_unchanged:
  assumes "no_not n" and "mctx_ok (\<lambda>ns. ns = []) A m0 cur c" and "positive c" and "\<not> mready c"
  shows "\<exists>c'. codd_mutator n c = Inr (n, c')"
  using rest_copies [OF assms(1), of A m0 cur] assms(2-4) by (auto simp: copies_at_rest_def at_rest_def)

theorem codd_positive_unchanged_witness:
  "\<exists>c'. codd_mutator (BoolExpr OR_EXPR [sample_cond 518, sample_cond 96] 0) (sample_mctx True) =
     Inr (BoolExpr OR_EXPR [sample_cond 518, sample_cond 96] 0, c')"
  by (rule codd_positive_unchanged [OF _ sample_mctx_ok [of "\<lambda>ns. ns = []", OF refl]])
    (simp_all add: sample_cond_def makeConst_def sample_mctx_def)

end
