(* ===== verification/Exec_Kleene.thy ===== *)
theory Exec_Kleene
  imports Exec_Qual
begin

section \<open>The executor computes Kleene's logic\<close>

text \<open>
  The loops of \<open>ExecEvalAnd\<close>, \<open>ExecEvalOr\<close> and \<open>ExecQual\<close> stop early and keep a flag for the nulls they
  have passed. Against a specification on three ordered truth values they are a minimum, a maximum and a
  comparison.
\<close>

definition truth :: "datum option \<Rightarrow> nat" where
  "truth r = (if is_true r then 2 else if is_false r then 0 else 1)"

lemma Min_truth: "Min (insert 2 (truth ` R)) = (if \<exists>r \<in> R. is_false r then 0 else if \<forall>r \<in> R. is_true r then 2 else 1)"
  if "finite R"
proof (intro Min_eqI)
  show "finite (insert 2 (truth ` R))" using that by simp
  show "(if \<exists>r \<in> R. is_false r then 0 else if \<forall>r \<in> R. is_true r then 2 else 1) \<le> y"
    if "y \<in> insert 2 (truth ` R)" for y
    using that by (auto simp: truth_def)
  show "(if \<exists>r \<in> R. is_false r then 0 else if \<forall>r \<in> R. is_true r then 2 else 1) \<in> insert 2 (truth ` R)"
    using not_true_and_false by (auto simp: truth_def image_iff)
qed

lemma Max_truth: "Max (insert 0 (truth ` R)) = (if \<exists>r \<in> R. is_true r then 2 else if \<forall>r \<in> R. is_false r then 0 else 1)"
  if "finite R"
proof (intro Max_eqI)
  show "finite (insert 0 (truth ` R))" using that by simp
  show "y \<le> (if \<exists>r \<in> R. is_true r then 2 else if \<forall>r \<in> R. is_false r then 0 else 1)"
    if "y \<in> insert 0 (truth ` R)" for y
    using that not_true_and_false by (auto simp: truth_def)
  show "(if \<exists>r \<in> R. is_true r then 2 else if \<forall>r \<in> R. is_false r then 0 else 1) \<in> insert 0 (truth ` R)"
    by (auto simp: truth_def image_iff)
qed

lemma truth_and: "truth (ExecEvalAnd False rs) = Min (insert 2 (truth ` set rs))"
  unfolding Min_truth [OF finite_set] using not_true_and_false by (auto simp: truth_def)

lemma truth_or: "truth (ExecEvalOr False rs) = Max (insert 0 (truth ` set rs))"
  unfolding Max_truth [OF finite_set] using not_true_and_false by (auto simp: truth_def)

lemma truth_not: "truth (ExecEvalNot r) = 2 - truth r"
  using not_true_and_false [of r] by (auto simp: truth_def)

lemma ExecQual_true: "ExecQual ec qual True \<longleftrightarrow> (\<forall>c \<in> set qual. \<not> is_false (ExecEvalExpr ec c))"
  by (induction qual) (auto split: option.splits)

text \<open>
  C14. The executor implements Kleene's three-valued logic: with false, null and true read as 0, 1 and 2, a conjunction
  evaluates to the least value of its arguments, a disjunction to the greatest, and a negation to the complement. A list
  of conditions passes \<open>ExecQual\<close> when their conjunction is true, or at least null if the caller asks that null count as true.
\<close>

theorem exec_kleene:
  "truth (ExecEvalExpr ec (BoolExpr AND_EXPR args l)) = Min (insert 2 ((truth \<circ> ExecEvalExpr ec) ` set args)) \<and>
   truth (ExecEvalExpr ec (BoolExpr OR_EXPR args l)) = Max (insert 0 ((truth \<circ> ExecEvalExpr ec) ` set args)) \<and>
   truth (ExecEvalExpr ec (BoolExpr NOT_EXPR (a # as) l)) = 2 - truth (ExecEvalExpr ec a) \<and>
   (ExecQual ec args resultForNull \<longleftrightarrow> (if resultForNull then 1 else 2) \<le> truth (ExecEvalExpr ec (BoolExpr AND_EXPR args l)))"
proof (intro conjI)
  show "ExecQual ec args resultForNull \<longleftrightarrow> (if resultForNull then 1 else 2) \<le> truth (ExecEvalExpr ec (BoolExpr AND_EXPR args l))"
    using not_true_and_false by (cases resultForNull) (auto simp: ExecQual_true ExecQual_false truth_def simp del: ExecQual.simps ExecEvalAnd.simps)
qed (simp_all only: eval_simps truth_and truth_or truth_not set_map image_comp)

end
