(* ===== verification/Hook_Cases.thy ===== *)
theory Hook_Cases
  imports Infed_Hooks Split_Correct
begin

section \<open>Whole runs\<close>

text \<open>
  Runs of the passes and of the hooks on given queries, from the empty memory on. All steps on the heap
  are evaluated by rewriting with the definitions collected here.
\<close>

lemmas list_steps = lappend_def lappend_with_def list_concat_def union_list_def inter_list_def list_nth_def list_nth_cell_def
  lfirst_def load_list_def load_cell_def load_obj_def store_list_def store_cell_def palloc_def set_next_def set_data_def
  empty_mem_def new_list_def new_tail_cell_def list_head_def list_copy_def

lemmas free_steps = free_context_modifier_def free_context_walker_set_constraint_def free_if_def list_free_deep_def
  list_free_private_def pfree_def loop_fuel_def

lemmas first_pass_steps = bool_enter_def query_enter_def query_push_def and_leave_def or_leave_def record_lists_def
  make_context_walker_set_constraint_def relation_step_def get_relnatts_def get_pg_att_not_null_def op_enter_def op_leave_def
  expression_tree_walker_simps

lemmas second_pass_steps = make_context_modifier_def query_vars_def bool_constraints_def mutate_list_def expression_tree_mutator_simps

lemmas marked_steps = marked_walker.simps [of _ Null] marked_walker.simps [of _ "Var _"] marked_walker.simps [of _ "Const _"] marked_walker.simps [of _ "OpExpr _ _ _"]
  marked_walker.simps [of _ "BoolExpr _ _ _"] marked_walker.simps [of _ "FromExpr _ _"] marked_walker.simps [of _ "RangeTblRef _"]
  marked_walker.simps [of _ "TList _"] marked_walker.simps [of _ "Query _ _ _ _"] marked_walker.simps [of _ "RangeTblEntry _ _ _ _ _ _"]
  marked_mutator.simps [of Null] marked_mutator.simps [of "Var _"] marked_mutator.simps [of "Const _"] marked_mutator.simps [of "OpExpr _ _ _"]
  marked_mutator.simps [of "BoolExpr _ _ _"] marked_mutator.simps [of "FromExpr _ _"] marked_mutator.simps [of "RangeTblRef _"]
  marked_mutator.simps [of "TList _"] marked_mutator.simps [of "Query _ _ _ _"]

lemmas codd_walk_steps = codd_walker.simps [of _ Null] codd_walker.simps [of _ "Var _"] codd_walker.simps [of _ "Const _"] codd_walker.simps [of _ "OpExpr _ _ _"]
  codd_walker.simps [of _ "BoolExpr _ _ _"] codd_walker.simps [of _ "FromExpr _ _"] codd_walker.simps [of _ "RangeTblRef _"]
  codd_walker.simps [of _ "TList _"] codd_walker.simps [of _ "Query _ _ _ _"] codd_walker.simps [of _ "RangeTblEntry _ _ _ _ _ _"]
  codd_walker.simps [of _ "NullTest _ _ _ _"] codd_walker.simps [of _ "SubLink _ _ _ _"]

lemmas var_steps = var_step_def getTrueVar_def isInListTrueVar_def list_member_with_def collect_def not_in_def mem_attr_def
  same_attr_def loop_fuel_def

lemmas codd_mutate_steps = codd_mutator.simps [of Null] codd_mutator.simps [of "Var _"] codd_mutator.simps [of "Const _"] codd_mutator.simps [of "OpExpr _ _ _"]
  codd_mutator.simps [of "BoolExpr _ _ _"] codd_mutator.simps [of "FromExpr _ _"] codd_mutator.simps [of "RangeTblRef _"]
  codd_mutator.simps [of "TList _"] codd_mutator.simps [of "Query _ _ _ _"] codd_mutator.simps [of "SubLink _ _ _ _"]
  null_check_def add_pending_def codd_ops_def makeBoolExpr_def

lemmas deep_steps = mutator_deep.simps [of Null] mutator_deep.simps [of "Var _"] mutator_deep.simps [of "Const _"] mutator_deep.simps [of "OpExpr _ _ _"]
  mutator_deep.simps [of "BoolExpr _ _ _"] mutator_deep.simps [of "FromExpr _ _"] mutator_deep.simps [of "RangeTblRef _"]
  mutator_deep.simps [of "TList _"] mutator_deep.simps [of "Query _ _ _ _"] mutator_deep.simps [of "SubLink _ _ _ _"] mutator_deep.simps [of "NullTest _ _ _ _"]
  optimize_self_constraint_deep_def optimize_self_constraint_def make_context_optimizer_self_def

lemmas self_steps = my_modifier_self.simps [of Null] my_modifier_self.simps [of "Var _"] my_modifier_self.simps [of "Const _"] my_modifier_self.simps [of "OpExpr _ _ _"]
  my_modifier_self.simps [of "BoolExpr _ _ _"] my_modifier_self.simps [of "FromExpr _ _"] my_modifier_self.simps [of "RangeTblRef _"]
  my_modifier_self.simps [of "TList _"] my_modifier_self.simps [of "Query _ _ _ _"] my_modifier_self.simps [of "SubLink _ _ _ _"] my_modifier_self.simps [of "NullTest _ _ _ _"]
  self_var_def self_take_def add_constrain_def make_temp_context_def

lemmas rel_steps = init_rel.simps [of "Var _"] init_rel.simps [of "BoolExpr _ _ _"] init_rel.simps [of "NullTest _ _ _ _"]
  modif_rel.simps [of "Var _"] modif_rel.simps [of "Const _"] modif_rel.simps [of "OpExpr _ _ _"] modif_rel.simps [of "BoolExpr _ _ _"] modif_rel.simps [of "NullTest _ _ _ _"]
  modif_rel.simps [of "TList _"] modif_rel.simps [of Null] modif_targetEntry.simps [of Null] modif_targetEntry.simps [of "TList _"]
  make_temp_context_rewrite_def create_from_query_def makeFromExpr_def makeAlias_def lnth_def

lemmas split_deep_steps = mutator_split_deep.simps [of _ Null] mutator_split_deep.simps [of _ "Var _"] mutator_split_deep.simps [of _ "Const _"]
  mutator_split_deep.simps [of _ "OpExpr _ _ _"] mutator_split_deep.simps [of _ "BoolExpr _ _ _"] mutator_split_deep.simps [of _ "FromExpr _ _"]
  mutator_split_deep.simps [of _ "RangeTblRef _"] mutator_split_deep.simps [of _ "TList _"] mutator_split_deep.simps [of _ "NullTest _ _ _ _"]

text \<open>A catalog in which every relation has \<open>k\<close> columns, none of them declared \<open>NOT NULL\<close>.\<close>

definition columns_catalog :: "int \<Rightarrow> pg_catalog" where
  "columns_catalog k = \<lparr>rel_natts = \<lambda>_. Some k, att_notnull = \<lambda>_ _. None\<rparr>"

definition col :: "int \<Rightarrow> pg_var" where
  "col a = zero_var\<lparr>varno := 1, varattno := a\<rparr>"

lemma index_cases:
  "int_of_index 0 = 0" "int_of_index (Suc 0) = 1" "index_eq (Suc 0) 1" "index_eq 0 0" "\<not> index_eq 0 1" "\<not> index_eq (Suc 0) 0"
  "\<not> index_eq 0 (- 1)" "\<not> index_eq (Suc 0) (- 1)"
  by (simp_all add: int_of_index_def index_eq_def index_of_int_def)



text \<open>The columns in the first list of non-null columns that the first pass recorded.\<close>

definition first_recorded :: "wctx \<Rightarrow> (nat \<times> int) list res" where
  "first_recorded c = bnd (list_nth (wmem c) (list_list_true c) 0)
     (read_list (wmem c) (\<lambda>d. bnd (as_ptr d) (\<lambda>p. bnd (load_obj (wmem c) p) (\<lambda>v. Inr (vartype v, varattno v)))))"


text \<open>The passes of the Codd hook up to the first log message, and the passes behind it.\<close>

definition null_passes :: "pg_catalog \<Rightarrow> node \<Rightarrow> nat \<Rightarrow> (node \<times> nat) res" where
  "null_passes cat query i =
     bnd (codd_walker cat query (make_context_walker_set_constraint empty_mem)) (\<lambda>(_, ctx).
     bnd (make_context_modifier True ctx) (\<lambda>ctx_m.
     bnd (codd_mutator query ctx_m) (\<lambda>(query, _).
     optimize_self_constraint_deep query i)))"

lemma codd_hook_null_passes:
  "codd_hook cat fuel query i =
     bnd (null_passes cat query i) (\<lambda>(query, i).
     bnd (query_quals query) (\<lambda>_.
     bnd (optimize_split_deep fuel query) (\<lambda>query.
     bnd (query_quals query) (\<lambda>_.
     optimize_exist_deep query i))))"
  by (simp add: codd_hook_def null_passes_def bnd_assoc split_def)

text \<open>A column of the first relation without its position in the text of the query, as the second pass leaves it.\<close>

definition unlocated :: "nat \<Rightarrow> int \<Rightarrow> pg_var" where
  "unlocated l a = (col a)\<lparr>varlevelsup := l, vlocation := -1\<rparr>"

definition null_or_differs :: "node \<Rightarrow> node \<Rightarrow> node list \<Rightarrow> fields \<Rightarrow> node" where
  "null_or_differs a b tests f = BoolExpr OR_EXPR (tests @ [OpExpr 518 f [a, b]]) (-1)"

definition is_null :: "pg_var \<Rightarrow> node" where
  "is_null v = NullTest IS_NULL (Var v) False (-1)"

definition from_one :: "query_misc \<Rightarrow> node \<Rightarrow> node \<Rightarrow> node" where
  "from_one q rte quals = Query q [rte] (FromExpr [RangeTblRef 1] quals) []"

text \<open>
  C16. The Codd hook on \<open>SELECT FROM r WHERE NOT (x <> c)\<close>. The second pass turns the comparison into \<open>x IS NULL OR x <> c\<close>, and
  the pass for constraints on one relation then takes this disjunction out from under the negation and restricts
  \<open>r\<close> to the rows that satisfy it, the rows the query excludes. It leaves a null pointer under the negation,
  which the splitting pass dereferences.
\<close>

theorem codd_hook_negated_comparison:
  "null_passes (columns_catalog 1) (from_one q (RangeTblEntry RTE_RELATION relid sub al (Some er) f)
       (BoolExpr NOT_EXPR [OpExpr 518 f1 [Var (col 1), Const c]] l)) i =
     Inr (from_one q (RangeTblEntry RTE_SUBQUERY relid
         (create_from_query (RangeTblEntry RTE_RELATION relid sub al (Some er) f)
            (null_or_differs (Var (unlocated 0 1)) (Const c) [is_null (unlocated 0 1)] f1) [])
         (Some (makeAlias (rel_name (Suc i)) [])) (Some (makeAlias (rel_name (Suc i)) (colnames er))) f)
       (BoolExpr NOT_EXPR [Null] l), Suc i) \<and>
   codd_hook (columns_catalog 1) fuel (from_one q (RangeTblEntry RTE_RELATION relid sub al (Some er) f)
       (BoolExpr NOT_EXPR [OpExpr 518 f1 [Var (col 1), Const c]] l)) i = Inl Segv"
  (is "null_passes _ ?q i = Inr (?r, _) \<and> _")
proof -
  have "null_passes (columns_catalog 1) ?q i = Inr (?r, Suc i)"
    by (simp add: null_passes_def from_one_def codd_walk_steps first_pass_steps second_pass_steps list_steps columns_catalog_def
      Let_def not_leave_def codd_mutate_steps index_cases var_steps numeral_nat zero_var_def col_def
      deep_steps self_steps rel_steps null_or_differs_def is_null_def unlocated_def)
  moreover have "optimize_split_deep fuel ?r = Inl Segv"
    by (simp add: from_one_def split_deep_steps second_pass_steps)
  ultimately show ?thesis by (simp add: codd_hook_null_passes from_one_def)
qed

text \<open>
  C15. The Codd hook does not return on \<open>SELECT FROM r WHERE NOT EXISTS (SELECT FROM s WHERE s.x <> r.x)\<close>: the second pass makes a
  disjunction of the condition of the sub-query, and the splitting pass does not end on a disjunction at the root.
\<close>

theorem codd_hook_single_comparison_diverges:
  "codd_hook (columns_catalog 1) fuel (from_one q (RangeTblEntry RTE_RELATION relid sub al er f)
     (BoolExpr NOT_EXPR [SubLink EXISTS_SUBLINK fs Null
       (from_one q' (RangeTblEntry RTE_RELATION relid' sub' al' er' f')
         (OpExpr 518 f1 [Var (col 1), Var ((col 1)\<lparr>varlevelsup := 1\<rparr>)]))] l)) i = Inl Loop"
  (is "codd_hook _ _ ?q i = _")
proof -
  let ?c = "null_or_differs (Var (unlocated 0 1)) (Var (unlocated 1 1)) [is_null (unlocated 0 1), is_null (unlocated 1 1)] f1"
  let ?r = "from_one q (RangeTblEntry RTE_RELATION relid sub al er f)
     (BoolExpr NOT_EXPR [SubLink EXISTS_SUBLINK fs Null (from_one q' (RangeTblEntry RTE_RELATION relid' sub' al' er' f') ?c)] l)"
  have "null_passes (columns_catalog 1) ?q i = Inr (?r, i)"
    by (simp add: null_passes_def from_one_def codd_walk_steps first_pass_steps second_pass_steps list_steps columns_catalog_def
      Let_def not_leave_def codd_mutate_steps index_cases var_steps numeral_nat zero_var_def col_def
      deep_steps self_steps rel_steps null_or_differs_def is_null_def unlocated_def)
  moreover have "trueSplit fuel ?c = Inl Loop"
    using pile_loop_diverges [of "[?c]" fuel "[]"] by (simp add: trueSplit_def null_or_differs_def is_null_def)
  then have "optimize_split_deep fuel ?r = Inl Loop"
    by (simp add: from_one_def split_deep_steps second_pass_steps null_or_differs_def is_null_def optimize_split_def)
  ultimately show ?thesis by (simp add: codd_hook_null_passes from_one_def)
qed

text \<open>The sub-query that replaces a relation with a condition of its own.\<close>

definition restricted :: "nat \<Rightarrow> nat \<Rightarrow> node \<Rightarrow> Alias \<Rightarrow> fields \<Rightarrow> node \<Rightarrow> node" where
  "restricted i relid rte er f constraint = RangeTblEntry RTE_SUBQUERY relid (create_from_query rte constraint [])
     (Some (makeAlias (rel_name i) [])) (Some (makeAlias (rel_name i) (colnames er))) f"

definition entry :: "nat \<Rightarrow> Alias option \<Rightarrow> Alias \<Rightarrow> fields \<Rightarrow> node" where
  "entry relid al er f = RangeTblEntry RTE_RELATION relid Null al (Some er) f"

text \<open>A comparison of a column of the sub-query with one of the query around it.\<close>

definition joined :: "nat \<Rightarrow> fields \<Rightarrow> pg_var \<Rightarrow> pg_var \<Rightarrow> node" where
  "joined opno f v w = OpExpr opno f [Var v, Var w]"

definition outer_col :: "int \<Rightarrow> pg_var" where
  "outer_col a = (col a)\<lparr>varlevelsup := 1\<rparr>"

lemmas exist_steps = create_connexe.simps [of Null] create_connexe.simps [of "TList _"] create_connexe.simps [of "FromExpr _ _"] create_connexe.simps [of "BoolExpr _ _ _"]
  create_connexe.simps [of "OpExpr _ _ _"] create_connexe.simps [of "RangeTblRef _"] create_connexe.simps [of "Var _"]
  components_def make_context_exists_def connexe_var_def is_sub_def list_member_int_def join_sub_level_def return_list_def remove_from_list_def
  not_containing_def read_components_def read_list_def lappend_int_def

lemma joined_component:
  "components (FromExpr [RangeTblRef 1] (BoolExpr AND_EXPR [joined opno g (col 2) (outer_col 2), Null] l)) 1 = Inr []"
  "components (FromExpr [RangeTblRef 1] (BoolExpr AND_EXPR [joined opno g (col 2) (outer_col 2), joined opno' f1 (unlocated 0 1) (unlocated 1 1)] l)) 1 = Inr []"
  by (simp_all add: exist_steps expression_tree_walker_simps list_steps var_steps index_cases col_def outer_col_def joined_def unlocated_def zero_var_def Let_def numeral_nat)

text \<open>The pass for constraints on one relation, on the conditions of the sub-queries.\<close>

lemma joined_self:
  "optimize_self_constraint [entry relid al er f]
     (FromExpr [RangeTblRef 1] (BoolExpr AND_EXPR [joined opno g (col 2) (outer_col 2), is_null (unlocated k 1)] l)) [] i =
   Inr (([restricted (Suc i) relid (entry relid al er f) er f (is_null (unlocated k 1))],
     FromExpr [RangeTblRef 1] (BoolExpr AND_EXPR [joined opno g (col 2) (outer_col 2), Null] l)), Suc i)"
  "optimize_self_constraint [rte]
     (FromExpr [RangeTblRef 1] (BoolExpr AND_EXPR [joined opno g (col 2) (outer_col 2), joined opno' f1 (unlocated 0 1) (unlocated 1 1)] l)) [] i =
   Inr (([rte], FromExpr [RangeTblRef 1] (BoolExpr AND_EXPR [joined opno g (col 2) (outer_col 2), joined opno' f1 (unlocated 0 1) (unlocated 1 1)] l)), i)"
  by (simp_all add: optimize_self_constraint_def make_context_optimizer_self_def self_steps rel_steps second_pass_steps
    expression_tree_walker_simps Let_def index_cases joined_def is_null_def unlocated_def outer_col_def col_def zero_var_def restricted_def entry_def)

lemmas exist_deep_steps = mutator_exist_deep.simps [of Null] mutator_exist_deep.simps [of "Var _"] mutator_exist_deep.simps [of "OpExpr _ _ _"]
  mutator_exist_deep.simps [of "NullTest _ _ _ _"] mutator_exist_deep.simps [of "TList _"] mutator_exist_deep.simps [of "BoolExpr _ _ _"]
  mutator_exist_deep.simps [of "SubLink _ _ _ _"] mutator_exist_deep.simps [of "FromExpr _ _"] mutator_exist_deep.simps [of "RangeTblRef _"]

lemma exist_deep_leaf:
  "mutator_exist_deep (joined opno g v w) i = Inr (joined opno g v w, i)"
  "mutator_exist_deep (is_null v) i = Inr (is_null v, i)"
  by (simp_all add: joined_def is_null_def exist_deep_steps second_pass_steps)

lemma joined_exist:
  "mutator_exist_deep (not_exists (from_one q (entry relid al er f)
       (BoolExpr AND_EXPR [joined opno g (col 2) (outer_col 2), is_null (unlocated k 1)] l))) i =
     Inr (not_exists (from_one q (restricted (Suc i) relid (entry relid al er f) er f (is_null (unlocated k 1)))
       (BoolExpr AND_EXPR [joined opno g (col 2) (outer_col 2), Null] l)), Suc i)"
  "mutator_exist_deep (not_exists (from_one q rte
       (BoolExpr AND_EXPR [joined opno g (col 2) (outer_col 2), joined opno' f1 (unlocated 0 1) (unlocated 1 1)] l))) i =
     Inr (not_exists (from_one q rte
       (BoolExpr AND_EXPR [joined opno g (col 2) (outer_col 2), joined opno' f1 (unlocated 0 1) (unlocated 1 1)] l)), i)"
  by (simp_all add: not_exists_def makeBoolExpr_def from_one_def exist_deep_steps mutator_exist_deep.simps [of "Query _ _ _ _"] second_pass_steps optimize_exist_def
    exist_deep_leaf joined_self joined_self [simplified] joined_component joined_component [simplified])

lemma split_three:
  assumes n: "plain n" "or_args n = None" and xs: "\<forall>x \<in> set [a, b, c]. plain x \<and> or_args x = None"
  shows "trueSplit (Suc (Suc (Suc (Suc (Suc fuel))))) (BoolExpr AND_EXPR [n, BoolExpr OR_EXPR [a, b, c] l'] l) =
    Inr (map (\<lambda>x. BoolExpr AND_EXPR [n, x] l) [a, b, c])"
proof -
  let ?b = "\<lambda>x. BoolExpr AND_EXPR [n, x] l"
  let ?n = "?b (BoolExpr OR_EXPR [a, b, c] l')"
  have m: "plain ?n" "\<not> is_or ?n" "or_args ?n = Some [a, b, c]" using n xs by simp_all
  have put: "put ?n x = ?b x" for x using n by simp
  have "length [a, b, c] \<le> Suc (Suc (Suc (Suc fuel)))" by simp
  from pile_loop_split [OF m this, of "[]" "[]", unfolded list.map put]
  have "pile_loop (Suc (Suc (Suc (Suc (Suc fuel))))) [?n] [] = pile_loop (Suc (Suc (Suc (Suc fuel)))) [?b a, ?b b, ?b c] []"
    by (simp only: append_Nil)
  moreover have "pile_loop (Suc k) (?b x # pile) result = pile_loop k pile (result @ [?b x])" if "x \<in> set [a, b, c]" for x k pile result
    using n xs that by (intro pile_loop_plain) auto
  ultimately show ?thesis by (simp add: trueSplit_def del: pile_loop.simps(3))
qed

text \<open>
  C6. A whole run of the Codd hook, on
  \<open>SELECT FROM r WHERE NOT EXISTS (SELECT FROM s WHERE s.b = r.b AND s.a <> r.a)\<close>. The result is the conjunction of three
  \<open>NOT EXISTS\<close>, for \<open>s.a IS NULL\<close>, \<open>r.a IS NULL\<close> and \<open>s.a <> r.a\<close>. The null test of the first moves into a sub-query that takes
  the place of \<open>s\<close>; so does the null test of the second, although \<open>r\<close> is a relation of the outer query, and
  a null pointer stays behind in both conjunctions.
\<close>

theorem codd_hook_run:
  "codd_hook (columns_catalog 2) (Suc (Suc (Suc (Suc (Suc fuel))))) (from_one q (entry rrel ral rer rf)
     (BoolExpr NOT_EXPR [SubLink EXISTS_SUBLINK fs Null (from_one q' (entry srel sal ser sf)
       (BoolExpr AND_EXPR [joined 96 g (col 2) (outer_col 2), joined 518 f1 (col 1) (outer_col 1)] l))] l')) i =
   Inr (from_one q (entry rrel ral rer rf) (BoolExpr AND_EXPR
     [not_exists (from_one q' (restricted (Suc i) srel (entry srel sal ser sf) ser sf (is_null (unlocated 0 1)))
        (BoolExpr AND_EXPR [joined 96 g (col 2) (outer_col 2), Null] l)),
      not_exists (from_one q' (restricted (Suc (Suc i)) srel (entry srel sal ser sf) ser sf (is_null (unlocated 1 1)))
        (BoolExpr AND_EXPR [joined 96 g (col 2) (outer_col 2), Null] l)),
      not_exists (from_one q' (entry srel sal ser sf)
        (BoolExpr AND_EXPR [joined 96 g (col 2) (outer_col 2), joined 518 f1 (unlocated 0 1) (unlocated 1 1)] l))] (-1)), Suc (Suc i))"
  (is "codd_hook _ _ ?q i = Inr (?r3, _)")
proof -
  let ?c = "BoolExpr AND_EXPR [joined 96 g (col 2) (outer_col 2),
    null_or_differs (Var (unlocated 0 1)) (Var (unlocated 1 1)) [is_null (unlocated 0 1), is_null (unlocated 1 1)] f1] l"
  let ?s = "\<lambda>x. not_exists (from_one q' (entry srel sal ser sf) (BoolExpr AND_EXPR [joined 96 g (col 2) (outer_col 2), x] l))"
  let ?r1 = "from_one q (entry rrel ral rer rf) (BoolExpr NOT_EXPR [SubLink EXISTS_SUBLINK fs Null (from_one q' (entry srel sal ser sf) ?c)] l')"
  let ?r2 = "from_one q (entry rrel ral rer rf) (BoolExpr AND_EXPR
    [?s (is_null (unlocated 0 1)), ?s (is_null (unlocated 1 1)), ?s (joined 518 f1 (unlocated 0 1) (unlocated 1 1))] (-1))"
  have "null_passes (columns_catalog 2) ?q i = Inr (?r1, i)"
    by (simp add: null_passes_def from_one_def codd_walk_steps first_pass_steps second_pass_steps list_steps columns_catalog_def
      Let_def not_leave_def codd_mutate_steps index_cases var_steps numeral_nat zero_var_def col_def
      deep_steps self_steps rel_steps null_or_differs_def is_null_def unlocated_def joined_def outer_col_def entry_def)
  moreover have "optimize_split_deep (Suc (Suc (Suc (Suc (Suc fuel))))) ?r1 = Inr ?r2"
    using split_three [of "joined 96 g (col 2) (outer_col 2)" "is_null (unlocated 0 1)" "is_null (unlocated 1 1)"
      "joined 518 f1 (unlocated 0 1) (unlocated 1 1)" fuel "-1" l]
    by (simp add: from_one_def split_deep_steps second_pass_steps null_or_differs_def is_null_def joined_def optimize_split_def makeBoolExpr_def Let_def)
  moreover have "optimize_exist_deep ?r2 i = Inr (?r3, Suc (Suc i))"
    by (simp add: from_one_def joined_exist [unfolded from_one_def, unfolded One_nat_def] exist_deep_steps second_pass_steps)
  ultimately show ?thesis by (simp add: codd_hook_null_passes from_one_def)
qed

end
