(* ===== verification/Spec2Isabelle.thy ===== *)
theory Spec2Isabelle
  imports Infed_Hooks Codd_Certain Marked_Certain Split_Correct Scope_Correct Exist_Rewrite Self_Correct Mutator_Shape
    Exec_Kleene Hook_Cases
begin

text \<open>
  \<^bold>\<open>Infed: certain answers over incomplete databases, as PostgreSQL plug-ins.\<close>

  The program is a pair of PostgreSQL plug-ins that rewrite a parsed query so that its answers are
  certain although the database has nulls: \<open>certain_answer_codd.c\<close> for SQL nulls and
  \<open>certain_answer_marked.c\<close> for marked nulls, stored as negative integers. A plug-in installs a hook that
  runs after parse analysis. Its first pass, a tree walker, finds the columns that cannot be null where
  a condition is true or false; its second pass, a tree mutator, rewrites the comparisons. The Codd
  plug-in then runs three optimisations over the result: constraints on one relation move into the
  range table (\<open>self_optimize.c\<close>), disjunctions under \<open>NOT EXISTS\<close> are split (\<open>split_optimize.c\<close>), and
  every connected component of the join graph gets an \<open>EXISTS\<close> of its own (\<open>exist_optimize.c\<close>). All of it
  stands on parts of PostgreSQL that come with the repository: the List package \<open>list.c\<close>, the tree
  traversals of \<open>nodeFuncs.c\<close>, the parse-tree nodes, and the executor \<open>execQual.c\<close> that gives the
  rewritten conditions their meaning. Source files are under \<open>src/gitrepo/postgresqlgit/src\<close>.

  \<^bold>\<open>Model.\<close>
  \<^item> \<open>Infed_Prelude\<close>: results \<open>'a res\<close> with the failures of C code (\<open>elog(ERROR)\<close>, null dereference, bad
    access, endless loop) and their sequencing \<open>bnd\<close>.
  \<^item> \<open>Pg_Memory\<close>: a heap of list headers, list cells and objects with \<open>palloc\<close> and \<open>pfree\<close>; addresses are
    numbers and 0 is the null pointer.
  \<^item> \<open>Pg_List\<close>: every operation of \<open>list.c\<close> on that heap, with sharing and destructive update.
  \<^item> \<open>Pg_Nodes\<close>, \<open>Pg_NodeFuncs\<close>: parse trees as a datatype, the constructors of \<open>makefuncs.c\<close>, and
    \<open>expression_tree_walker\<close> and \<open>expression_tree_mutator\<close> with the callback as an argument and its
    context as a state.
  \<^item> \<open>True_Var\<close>: the two contexts of \<open>true_var.h\<close>, scopes of column variables, and the operations on lists
    of columns; the system catalog is an argument.
  \<^item> \<open>Null_Walker\<close>, \<open>Null_Mutator\<close>: the first and the second pass of both plug-ins.
  \<^item> \<open>Self_Optimize\<close>, \<open>Split_Optimize\<close>, \<open>Exist_Optimize\<close>: the three optimisations.
  \<^item> \<open>Infed_Hooks\<close>: installation, and the hooks as the composition of all passes.
  \<^item> \<open>Exec_Qual\<close>: three-valued evaluation of conditions; the values of variables, the operators and all
    other expressions, sub-queries among them, are arguments.

  \<^bold>\<open>What is proved.\<close>
  \<^item> Lists (\<open>Pg_List_Rep\<close>, \<open>Pg_List_Spec\<close>, \<open>Pg_List_Sets\<close>, \<open>Pg_List_Update\<close>, \<open>Pg_List_Correct\<close>): the heap operations
    refine operations on HOL lists, with frames. The set operations are proved once in the locale
    \<open>list_kind\<close> and interpreted for integer, pointer and Oid lists.
  \<^item> Scopes and columns (\<open>Heap_Order\<close>, \<open>True_Var_Correct\<close>, \<open>Scope_Correct\<close>): union and intersection of columns,
    and that the first pass builds scopes in which variables resolve to their columns.
  \<^item> Certain answers (\<open>Certain_Rewrite\<close>, \<open>Codd_Certain\<close>, \<open>Marked_Certain\<close>): both mutators are instances of the
    locale \<open>rewriter\<close>; what they accept in a positive context is certain, and in a negative one they
    accept whatever is possible.
  \<^item> Splitting (\<open>Split_Correct\<close>): when \<open>trueSplit\<close> returns and with what, equivalence of the split query, and
    the two ways in which the pass changes the meaning of a query.
  \<^item> Components (\<open>Join_Graph\<close>, \<open>Exist_Components\<close>, \<open>Exist_Edges\<close>): the heap program refines an abstract
    partition, which is that of the connected components.
  \<^item> Rewriting of a component and of a constrained relation (\<open>Renumbering\<close>, \<open>Exist_Rewrite\<close>,
    \<open>Self_Correct\<close>): the mutators of variables are instances of the locale \<open>var_mutator\<close> and keep the value of
    a condition; range tables and variable numbers agree when a component is sorted, and do not when
    it is not. \<open>Self_Correct\<close> gives the range table and the condition that the pass for constraints on
    one relation leaves.
  \<^item> Traversals (\<open>Traversal\<close>, \<open>Mutator_Shape\<close>): the locale \<open>pass\<close> for mutators that copy what they do not
    handle, interpreted for all five passes; the walkers never stop a walk, the mutators restore their
    context and turn conditions into conditions.
  \<^item> Evaluation (\<open>Exec_Kleene\<close>): the loops of the executor compute Kleene's three-valued logic.
  \<^item> Whole runs (\<open>Hook_Cases\<close>): the hooks, all passes composed, on given queries from the empty memory on: a run
    of the Codd hook to its end, one that never ends, and those that crash.

  \<^bold>\<open>Bounds and fuel.\<close> A loop over list cells gets \<open>loop_fuel m\<close> steps, twice the number of chunks ever
  allocated; a chain without a cycle is shorter, so running out means that the loop does not end. The
  loops of \<open>trueSplit\<close> take fuel as an argument; \<open>trueSplit_termination\<close> states how much is enough and
  when no amount is. All other recursions are on the size \<open>weight\<close> of a tree. \<open>Index\<close> values are 32-bit: a
  comparison with an \<open>int\<close> converts as C does (\<open>index_of_int\<close>, \<open>int_of_index\<close>).

  \<^bold>\<open>Conventions.\<close> An update of a parse tree in place is modelled by returning the updated tree, which is the
  same as long as one path leads to the updated node; where the code revisits a sub-query that it has
  already updated the model stops with \<open>Shared\<close>. Entries of a range table are distinct objects, so that
  \<open>list_delete_ptr\<close> removes the entry \<open>list_nth\<close> returned. Log messages are left out except for the
  pointers they dereference.

  \<^bold>\<open>Not modelled.\<close> The rest of the PostgreSQL server (parser, planner, storage, and those functions of the
  modelled files that no plug-in calls), because the plug-ins see it only through parsed queries and
  two catalog columns; memory contexts, since no plug-in switches them; \<open>optimize.c\<close>, an earlier
  version of the three optimisations whose header is no longer included anywhere; reports, slides,
  test queries and build files.
\<close>

end
